theory Spec2Isabelle
  imports Complex_Main "HOL-Library.Char_ord" "HOL-Library.List_Lexorder"
begin


section \<open>Fixed-window rate limiter (utils/rateLimit.ts)\<close>

text \<open>
  \<^verbatim>\<open>interface RateLimitEntry { count: number; resetAt: number }\<close>.
  Instants are milliseconds since the epoch as returned by \<^verbatim>\<open>Date.now()\<close>; they and the
  counters are integers far below $2^{53}$, so they are modelled as \<open>int\<close>.
\<close>

record RateLimitEntry =
  count :: int
  resetAt :: int

text \<open>The private \<^verbatim>\<open>Map<string, RateLimitEntry>\<close> of the class \<^verbatim>\<open>RateLimiter\<close>.\<close>

type_synonym limits = "string \<rightharpoonup> RateLimitEntry"

text \<open>The object returned by \<^verbatim>\<open>check\<close>: \<^verbatim>\<open>{ allowed, remaining, resetAt }\<close>.\<close>

record check_result =
  allowed :: bool
  remaining :: int
  reset_at :: int

text \<open>
  \<^verbatim>\<open>RateLimiter.check(identifier, maxRequests, windowSeconds)\<close>. The map is passed in and
  returned; \<open>now\<close> is the single reading of \<^verbatim>\<open>Date.now()\<close> the method takes.
\<close>

definition new_window :: "limits \<Rightarrow> string \<Rightarrow> int \<Rightarrow> int \<Rightarrow> int \<Rightarrow> check_result \<times> limits" where
  "new_window lims identifier maxRequests windowSeconds now =
     (let r = now + windowSeconds * 1000
      in (\<lparr>allowed = True, remaining = maxRequests - 1, reset_at = r\<rparr>,
          lims(identifier \<mapsto> \<lparr>count = 1, resetAt = r\<rparr>)))"

definition check :: "limits \<Rightarrow> string \<Rightarrow> int \<Rightarrow> int \<Rightarrow> int \<Rightarrow> check_result \<times> limits" where
  "check lims identifier maxRequests windowSeconds now =
     (case lims identifier of
        None \<Rightarrow> new_window lims identifier maxRequests windowSeconds now
      | Some entry \<Rightarrow>
          if now > resetAt entry then new_window lims identifier maxRequests windowSeconds now
          else if count entry \<ge> maxRequests then
            (\<lparr>allowed = False, remaining = 0, reset_at = resetAt entry\<rparr>, lims)
          else
            (let entry' = entry\<lparr>count := count entry + 1\<rparr>
             in (\<lparr>allowed = True, remaining = maxRequests - count entry',
                  reset_at = resetAt entry'\<rparr>,
                 lims(identifier \<mapsto> entry'))))"

text \<open>\<^verbatim>\<open>RateLimiter.cleanup()\<close>: drops every entry whose reset instant has passed.\<close>

definition cleanup :: "limits \<Rightarrow> int \<Rightarrow> limits" where
  "cleanup lims now =
     (\<lambda>k. case lims k of None \<Rightarrow> None
                     | Some entry \<Rightarrow> if now > resetAt entry then None else Some entry)"

text \<open>
  A caller issuing several \<^verbatim>\<open>check\<close> calls for one identifier, one after the other, the
  \<open>i\<close>-th at the clock reading \<open>ts ! i\<close>; the results are collected in call order.
\<close>

fun check_seq :: "limits \<Rightarrow> string \<Rightarrow> int \<Rightarrow> int \<Rightarrow> int list \<Rightarrow> check_result list \<times> limits" where
  "check_seq lims identifier maxRequests windowSeconds [] = ([], lims)"
| "check_seq lims identifier maxRequests windowSeconds (t # ts) =
     (let (r, lims') = check lims identifier maxRequests windowSeconds t;
          (rs, lims'') = check_seq lims' identifier maxRequests windowSeconds ts
      in (r # rs, lims''))"

text \<open>\<^verbatim>\<open>RATE_LIMITS\<close>: 10 requests per 60 s per client address, 5 per 300 s per channel.\<close>

definition PER_IP_maxRequests :: int where "PER_IP_maxRequests = 10"
definition PER_IP_windowSeconds :: int where "PER_IP_windowSeconds = 60"
definition PER_CHANNEL_maxRequests :: int where "PER_CHANNEL_maxRequests = 5"
definition PER_CHANNEL_windowSeconds :: int where "PER_CHANNEL_windowSeconds = 300"

section \<open>In-memory cache with per-entry expiry (utils/cache.ts, class SimpleCache)\<close>

text \<open>\<^verbatim>\<open>interface CacheEntry<T> { data: T; expiresAt: number }\<close>\<close>

record 'v CacheEntry =
  data :: 'v
  expiresAt :: int

type_synonym 'v cache = "string \<rightharpoonup> 'v CacheEntry"

text \<open>
  The methods of \<^verbatim>\<open>SimpleCache\<close>; \<open>now\<close> is the method's reading of \<^verbatim>\<open>Date.now()\<close>.
  \<^verbatim>\<open>get\<close> returns the value (or \<open>None\<close> for \<^verbatim>\<open>null\<close>) together with the store, from
  which an expired entry has been deleted.
\<close>

definition cache_set :: "'v cache \<Rightarrow> string \<Rightarrow> 'v \<Rightarrow> int \<Rightarrow> int \<Rightarrow> 'v cache" where
  "cache_set c key d ttlSeconds now = c(key \<mapsto> \<lparr>data = d, expiresAt = now + ttlSeconds * 1000\<rparr>)"

definition cache_get :: "'v cache \<Rightarrow> string \<Rightarrow> int \<Rightarrow> 'v option \<times> 'v cache" where
  "cache_get c key now =
     (case c key of
        None \<Rightarrow> (None, c)
      | Some entry \<Rightarrow>
          if now > expiresAt entry then (None, c(key := None))
          else (Some (data entry), c))"

definition cache_delete :: "'v cache \<Rightarrow> string \<Rightarrow> 'v cache" where
  "cache_delete c key = c(key := None)"

definition cache_clear :: "'v cache \<Rightarrow> 'v cache" where
  "cache_clear c = Map.empty"

definition cache_cleanup :: "'v cache \<Rightarrow> int \<Rightarrow> 'v cache" where
  "cache_cleanup c now =
     (\<lambda>k. case c k of None \<Rightarrow> None
                   | Some entry \<Rightarrow> if now > expiresAt entry then None else Some entry)"

text \<open>
  A client of the cache performing a sequence of operations, used to speak about "every
  subsequent \<^verbatim>\<open>get\<close> until a new \<^verbatim>\<open>set\<close>".
\<close>

datatype 'v cache_op =
    OpSet string 'v int int
  | OpGet string int
  | OpDelete string
  | OpClear
  | OpCleanup int

fun run_op :: "'v cache \<Rightarrow> 'v cache_op \<Rightarrow> 'v cache" where
  "run_op c (OpSet key d ttlSeconds now) = cache_set c key d ttlSeconds now"
| "run_op c (OpGet key now) = snd (cache_get c key now)"
| "run_op c (OpDelete key) = cache_delete c key"
| "run_op c OpClear = cache_clear c"
| "run_op c (OpCleanup now) = cache_cleanup c now"

fun run_ops :: "'v cache \<Rightarrow> 'v cache_op list \<Rightarrow> 'v cache" where
  "run_ops c [] = c"
| "run_ops c (x # xs) = run_ops (run_op c x) xs"

fun sets_key :: "string \<Rightarrow> 'v cache_op \<Rightarrow> bool" where
  "sets_key k (OpSet key d ttlSeconds now) = (key = k)"
| "sets_key k _ = False"

section \<open>Shared vocabulary of the adapters\<close>

text \<open>
  A thrown JavaScript \<^verbatim>\<open>Error\<close> (or a rejected promise) is a value carrying the message; a
  call that may throw returns \<open>error + 'a\<close> with \<open>Inl\<close> for the throw.
\<close>

datatype error = Error string

fun message :: "error \<Rightarrow> string" where
  "message (Error m) = m"

text \<open>
  An optional string (\<^verbatim>\<open>process.env.X\<close>, an optional JSON field) is falsy when it is
  \<^verbatim>\<open>undefined\<close>/\<^verbatim>\<open>null\<close> or the empty string; a number is falsy when missing or zero.
\<close>

fun truthy :: "string option \<Rightarrow> bool" where
  "truthy None = False"
| "truthy (Some s) = (s \<noteq> [])"

fun truthy_num :: "'a::zero option \<Rightarrow> bool" where
  "truthy_num None = False"
| "truthy_num (Some n) = (n \<noteq> 0)"

text \<open>\<^verbatim>\<open>a || b\<close> on two optional numbers, \<open>None\<close> when both are falsy.\<close>

definition first_truthy :: "'a::zero option \<Rightarrow> 'a option \<Rightarrow> 'a option" where
  "first_truthy a b = (if truthy_num a then a else if truthy_num b then b else None)"

text \<open>A value interpolated into a template literal: \<^verbatim>\<open>undefined\<close> prints as such.\<close>

fun interpolate :: "string option \<Rightarrow> string" where
  "interpolate None = ''undefined''"
| "interpolate (Some s) = s"

text \<open>
  A JSON string field that the code prints into a template literal without testing it
  first: there the difference between a missing field and a \<^verbatim>\<open>null\<close> one shows, as
  \<^verbatim>\<open>undefined\<close> and \<^verbatim>\<open>null\<close>. Both are falsy.
\<close>

datatype json_string = Undefined | Null | Str string

fun present :: "json_string \<Rightarrow> string option" where
  "present (Str s) = Some s"
| "present _ = None"

fun template :: "json_string \<Rightarrow> string" where
  "template Undefined = ''undefined''"
| "template Null = ''null''"
| "template (Str s) = s"


text \<open>
  \<^verbatim>\<open>Array.prototype.findIndex\<close>: the index of the first element satisfying the predicate,
  or \<open>-1\<close>.
\<close>

fun findIndex :: "('a \<Rightarrow> bool) \<Rightarrow> 'a list \<Rightarrow> int" where
  "findIndex P [] = - 1"
| "findIndex P (x # xs) =
     (if P x then 0 else (let i = findIndex P xs in if i < 0 then - 1 else i + 1))"

subsection \<open>Domain records (app/types.ts)\<close>

record YouTubeVideo =
  video_id :: string
  video_title :: string
  video_description :: string
  video_publishedAt :: string
  video_thumbnail :: string
  video_url :: string

record TopicAnalysis =
  topics :: "string list"
  summary :: string

record NewsArticle =
  news_title :: string
  news_url :: string
  news_source :: string
  news_publishedAt :: string

text \<open>
  \<^verbatim>\<open>score\<close> is the provider's integer vote count. \<^verbatim>\<open>created\<close> is in seconds and may be
  the fractional \<^verbatim>\<open>Date.now() / 1000\<close>, hence rational.
\<close>

record RedditPost =
  post_title :: string
  post_url :: string
  post_subreddit :: string
  post_score :: int
  post_created :: rat

record VideoIdea =
  idea_title :: string
  idea_thumbDesign :: string
  idea_videoIdea :: string

record channel_videos =
  cv_videos :: "YouTubeVideo list"
  cv_channelName :: string

subsection \<open>What the providers answer\<close>

text \<open>\<^verbatim>\<open>interface RedditTokenResponse\<close> (lib/reddit-oauth.ts)\<close>

record RedditTokenResponse =
  access_token :: string
  token_type :: string
  expires_in :: int
  scope :: string

text \<open>The object \<^verbatim>\<open>{ token, expiresAt }\<close> kept under the key \<^verbatim>\<open>reddit:access_token\<close>.\<close>

record token_record =
  token :: string
  token_expiresAt :: int

text \<open>
  One element of \<^verbatim>\<open>children\<close> in a Reddit listing. Reading \<^verbatim>\<open>child.data\<close> of a
  \<^verbatim>\<open>null\<close> element throws a TypeError; an element without \<^verbatim>\<open>data\<close> maps to \<^verbatim>\<open>null\<close>.
\<close>

record listing_data =
  ld_title :: "string option"
  ld_permalink :: "string option"
  ld_subreddit :: json_string
  ld_id :: json_string
  ld_score :: "int option"
  ld_created_utc :: "rat option"
  ld_created :: "rat option"

datatype child = NullChild | NoData | Data listing_data

text \<open>
  \<^verbatim>\<open>response.data?.data?.children\<close>: missing (or otherwise falsy), present but not an array,
  or an array of children.
\<close>

datatype listing = NoChildren | NonArray | Children "child list"

text \<open>An element of \<^verbatim>\<open>response.data.articles\<close> of the news provider.\<close>

record raw_article =
  ra_title :: string
  ra_url :: string
  ra_source_name :: "string option"
  ra_publishedAt :: string

text \<open>
  The news response body: no \<^verbatim>\<open>data\<close> at all (reading \<^verbatim>\<open>.articles\<close> throws), a falsy
  \<^verbatim>\<open>articles\<close>, a truthy non-array (\<^verbatim>\<open>.map\<close> throws), or an array whose \<^verbatim>\<open>null\<close> elements are
  \<open>None\<close>.
\<close>

datatype news_body = NoBody | NoArticles | NonArrayArticles | Articles "raw_article option list"

text \<open>The parts of the YouTube Data API responses that the catalog lookup reads.\<close>

record channel_item =
  ci_title :: "string option"
  ci_uploads :: "string option"

record raw_video =
  rv_id :: json_string
  rv_title :: "string option"
  rv_description :: "string option"
  rv_publishedAt :: "string option"
  rv_thumbnail :: "string option"

text \<open>
  A chat completion: \<^verbatim>\<open>choices\<close> is empty (so that \<^verbatim>\<open>choices[0].message\<close> throws), or the
  first choice carries a possibly \<^verbatim>\<open>null\<close> content.
\<close>

datatype completion = NoChoices | Choice "string option"

text \<open>The result of \<^verbatim>\<open>JSON.parse\<close> as the completion adapter reads it.\<close>

record topics_json =
  tj_topics :: "string list option"
  tj_summary :: "string option"

text \<open>Every outbound request an adapter issues, with the parameters that vary.\<close>

datatype request =
    TokenExchange string string string
  | OAuthSearch string string string
  | PublicSearch string
  | NewsSearch string string string
  | ChannelsList string
  | PlaylistItemsList string
  | VideosList "string list"
  | TopicsCompletion string string
  | IdeasCompletion string string string string
  | KvGet string
  | KvSet string channel_videos int

text \<open>
  The environment of a process: its configuration, its clock and the external providers.
  The \<open>i\<close>-th reading of \<^verbatim>\<open>Date.now()\<close> is \<open>Date_now e i\<close>; a provider's answer may depend
  on the request and on how many requests were issued before it. No assumption is made on
  either (the clock need not even be monotone).
\<close>

record env =
  REDDIT_CLIENT_ID :: "string option"
  REDDIT_CLIENT_SECRET :: "string option"
  REDDIT_USER_AGENT :: "string option"
  NEWS_API_KEY :: "string option"
  Date_now :: "nat \<Rightarrow> int"
  toISODate :: "int \<Rightarrow> string"
  token_endpoint :: "nat \<Rightarrow> request \<Rightarrow> error + RedditTokenResponse"
  oauth_search :: "nat \<Rightarrow> request \<Rightarrow> error + listing"
  public_search :: "nat \<Rightarrow> request \<Rightarrow> error + listing"
  newsapi :: "nat \<Rightarrow> request \<Rightarrow> error + news_body"
  channels_list :: "nat \<Rightarrow> request \<Rightarrow> error + channel_item list"
  playlistItems_list :: "nat \<Rightarrow> request \<Rightarrow> error + string option list"
  videos_list :: "nat \<Rightarrow> request \<Rightarrow> error + raw_video list"
  chat_completion :: "nat \<Rightarrow> request \<Rightarrow> error + completion"
  JSON_parse_topics :: "string \<Rightarrow> error + topics_json option"
  JSON_parse_ideas :: "string \<Rightarrow> error + VideoIdea list option option"
  kv_get :: "nat \<Rightarrow> request \<Rightarrow> error + channel_videos option"

text \<open>
  The mutable state of the process as far as the adapters are concerned: the module cache,
  the number of clock readings taken and the requests issued so far (oldest first).
  The cache is one \<^verbatim>\<open>Map\<close> in the source; the token is kept under \<^verbatim>\<open>reddit:access_token\<close>
  and topic analyses under keys starting with \<^verbatim>\<open>topics:\<close>, so the two kinds of value never
  meet under one key and the map is kept as one typed store per kind.
\<close>

record world =
  token_store :: "token_record cache"
  topics_store :: "TopicAnalysis cache"
  reads :: nat
  requests :: "request list"

definition now :: "env \<Rightarrow> world \<Rightarrow> int \<times> world" where
  "now e w = (Date_now e (reads w), w\<lparr>reads := Suc (reads w)\<rparr>)"

definition issue :: "world \<Rightarrow> request \<Rightarrow> world" where
  "issue w r = w\<lparr>requests := requests w @ [r]\<rparr>"

text \<open>
  \<^verbatim>\<open>getCached\<close> and \<^verbatim>\<open>setCached\<close> of the in-memory cache module forward to the global
  \<^verbatim>\<open>SimpleCache\<close>; here they take the store they work on and return it. \<^verbatim>\<open>get\<close> reads the
  clock only when it found an entry.
\<close>

definition getCached :: "env \<Rightarrow> world \<Rightarrow> 'v cache \<Rightarrow> string \<Rightarrow> ('v option \<times> 'v cache) \<times> world" where
  "getCached e w c key =
     (case c key of
        None \<Rightarrow> ((None, c), w)
      | Some entry \<Rightarrow> (let (t, w1) = now e w in (cache_get c key t, w1)))"

definition setCached :: "env \<Rightarrow> world \<Rightarrow> 'v cache \<Rightarrow> string \<Rightarrow> 'v \<Rightarrow> int \<Rightarrow> 'v cache \<times> world" where
  "setCached e w c key d ttlSeconds =
     (let (t, w1) = now e w in (cache_set c key d ttlSeconds t, w1))"

section \<open>Token cache (lib/reddit-oauth.ts)\<close>

text \<open>\<^verbatim>\<open>a || b\<close> on an optional string.\<close>

fun or_else :: "string option \<Rightarrow> string \<Rightarrow> string" where
  "or_else None d = d"
| "or_else (Some s) d = (if s = [] then d else s)"

definition user_agent :: "env \<Rightarrow> string" where
  "user_agent e = or_else (REDDIT_USER_AGENT e) ''TubeAI/1.0 by /u/yourusername''"

definition token_key :: string where
  "token_key = ''reddit:access_token''"

text \<open>
  The \<^verbatim>\<open>try\<close> block of \<^verbatim>\<open>getRedditAccessToken\<close> with its \<^verbatim>\<open>catch\<close>: one POST to the token
  endpoint; a failure yields \<^verbatim>\<open>null\<close>, a success caches \<^verbatim>\<open>{ token, expiresAt }\<close> for
  \<^verbatim>\<open>expires_in - 60\<close> seconds and yields the token.
\<close>

definition exchange_token :: "env \<Rightarrow> world \<Rightarrow> string option \<times> world" where
  "exchange_token e w =
     (let req = TokenExchange (interpolate (REDDIT_CLIENT_ID e))
                  (interpolate (REDDIT_CLIENT_SECRET e)) (user_agent e);
          w1 = issue w req
      in case token_endpoint e (length (requests w)) req of
           Inl err \<Rightarrow> (None, w1)
         | Inr resp \<Rightarrow>
             (let (t, w2) = now e w1;
                  expiresAt = t + expires_in resp * 1000;
                  (c', w3) = setCached e w2 (token_store w2) token_key
                               \<lparr>token = access_token resp, token_expiresAt = expiresAt\<rparr>
                               (expires_in resp - 60)
              in (Some (access_token resp), w3\<lparr>token_store := c'\<rparr>)))"

definition getRedditAccessToken :: "env \<Rightarrow> world \<Rightarrow> (error + string option) \<times> world" where
  "getRedditAccessToken e w =
     (if \<not> truthy (REDDIT_CLIENT_ID e) \<or> \<not> truthy (REDDIT_CLIENT_SECRET e) then (Inr None, w)
      else
        (let ((cached, c'), w0) = getCached e w (token_store w) token_key;
             w1 = w0\<lparr>token_store := c'\<rparr>
         in case cached of
              None \<Rightarrow> (let (r, w') = exchange_token e w1 in (Inr r, w'))
            | Some rec \<Rightarrow>
                (let (t, w2) = now e w1
                 in if token_expiresAt rec > t + 60000 then (Inr (Some (token rec)), w2)
                    else (let (r, w') = exchange_token e w2 in (Inr r, w')))))"

text \<open>The credential exchanges and the public searches among the requests issued.\<close>

fun is_exchange :: "request \<Rightarrow> bool" where
  "is_exchange (TokenExchange cid secret ua) = True"
| "is_exchange _ = False"

fun is_public_search :: "request \<Rightarrow> bool" where
  "is_public_search (PublicSearch topic) = True"
| "is_public_search _ = False"

section \<open>Forum search with fallback (lib/external-apis.ts)\<close>

text \<open>
  The callback both searches map over \<^verbatim>\<open>children\<close>. It yields \<^verbatim>\<open>null\<close> (\<open>None\<close>) for a
  child without a title and throws on a \<^verbatim>\<open>null\<close> child. The clock is read only when the
  child carries no creation time
  (\<^verbatim>\<open>data.created_utc || data.created || Date.now() / 1000\<close>).
\<close>

definition post_of_child :: "env \<Rightarrow> world \<Rightarrow> child \<Rightarrow> (error + RedditPost option) \<times> world" where
  "post_of_child e w c =
     (case c of
        NullChild \<Rightarrow> (Inl (Error ''Cannot read properties of null''), w)
      | NoData \<Rightarrow> (Inr None, w)
      | Data d \<Rightarrow>
          if \<not> truthy (ld_title d) then (Inr None, w)
          else
            (let u = (if truthy (ld_permalink d)
                      then ''https://reddit.com''
                             @ (if take 1 (interpolate (ld_permalink d)) = ''/'' then '''' else ''/'')
                             @ interpolate (ld_permalink d)
                      else ''https://reddit.com/r/'' @ template (ld_subreddit d)
                             @ ''/comments/'' @ template (ld_id d));
                 (cr, w1) = (case first_truthy (ld_created_utc d) (ld_created d) of
                               Some c \<Rightarrow> (c, w)
                             | None \<Rightarrow> (let (t, w') = now e w in (of_int t / 1000, w')))
             in (Inr (Some \<lparr>post_title = interpolate (ld_title d), post_url = u,
                            post_subreddit = or_else (present (ld_subreddit d)) ''unknown'',
                            post_score = (case ld_score d of None \<Rightarrow> 0 | Some s \<Rightarrow> s),
                            post_created = cr\<rparr>), w1)))"

text \<open>\<^verbatim>\<open>children.map(callback)\<close>: left to right, abandoned at the first throw.\<close>

fun posts_of_children :: "env \<Rightarrow> world \<Rightarrow> child list \<Rightarrow> (error + RedditPost option list) \<times> world" where
  "posts_of_children e w [] = (Inr [], w)"
| "posts_of_children e w (c # cs) =
     (case post_of_child e w c of
        (Inl err, w1) \<Rightarrow> (Inl err, w1)
      | (Inr p, w1) \<Rightarrow>
          (case posts_of_children e w1 cs of
             (Inl err, w2) \<Rightarrow> (Inl err, w2)
           | (Inr ps, w2) \<Rightarrow> (Inr (p # ps), w2)))"

text \<open>\<^verbatim>\<open>.filter(post => post !== null)\<close>\<close>

fun non_null :: "'a option list \<Rightarrow> 'a list" where
  "non_null [] = []"
| "non_null (None # xs) = non_null xs"
| "non_null (Some x # xs) = x # non_null xs"

text \<open>
  \<^verbatim>\<open>searchRedditWithOAuth(topic)\<close>. The token is awaited outside the \<^verbatim>\<open>try\<close>, so a
  rejection of \<^verbatim>\<open>getRedditAccessToken\<close> would propagate; everything after it is inside.
\<close>

definition searchRedditWithOAuth :: "env \<Rightarrow> world \<Rightarrow> string \<Rightarrow> (error + RedditPost list) \<times> world" where
  "searchRedditWithOAuth e w topic =
     (case getRedditAccessToken e w of
        (Inl err, w1) \<Rightarrow> (Inl err, w1)
      | (Inr accessToken, w1) \<Rightarrow>
          if \<not> truthy accessToken then (Inr [], w1)
          else
            (let req = OAuthSearch topic (interpolate accessToken) (user_agent e);
                 w2 = issue w1 req
             in case oauth_search e (length (requests w1)) req of
                  Inl err \<Rightarrow> (Inr [], w2)
                | Inr NoChildren \<Rightarrow> (Inr [], w2)
                | Inr NonArray \<Rightarrow> (Inr [], w2)
                | Inr (Children cs) \<Rightarrow>
                    (case posts_of_children e w2 cs of
                       (Inl err, w3) \<Rightarrow> (Inr [], w3)
                     | (Inr ps, w3) \<Rightarrow> (Inr (non_null ps), w3))))"

text \<open>\<^verbatim>\<open>searchRedditPublic(topic)\<close>: the whole body is inside the \<^verbatim>\<open>try\<close>.\<close>

definition searchRedditPublic :: "env \<Rightarrow> world \<Rightarrow> string \<Rightarrow> (error + RedditPost list) \<times> world" where
  "searchRedditPublic e w topic =
     (let req = PublicSearch topic;
          w1 = issue w req
      in case public_search e (length (requests w)) req of
           Inl err \<Rightarrow> (Inr [], w1)
         | Inr NoChildren \<Rightarrow> (Inr [], w1)
         | Inr NonArray \<Rightarrow> (Inr [], w1)
         | Inr (Children cs) \<Rightarrow>
             if length cs = 0 then (Inr [], w1)
             else
               (case posts_of_children e w1 cs of
                  (Inl err, w2) \<Rightarrow> (Inr [], w2)
                | (Inr ps, w2) \<Rightarrow> (Inr (non_null ps), w2)))"

text \<open>
  The body of the loop over topics in \<^verbatim>\<open>searchRedditPosts\<close>, up to the value of \<^verbatim>\<open>posts\<close>.
\<close>

definition search_topic :: "env \<Rightarrow> bool \<Rightarrow> world \<Rightarrow> string \<Rightarrow> (error + RedditPost list) \<times> world" where
  "search_topic e hasOAuth w topic =
     (if hasOAuth then
        (case searchRedditWithOAuth e w topic of
           (Inl err, w1) \<Rightarrow> (Inl err, w1)
         | (Inr posts, w1) \<Rightarrow>
             if length posts = 0 then searchRedditPublic e w1 topic else (Inr posts, w1))
      else searchRedditPublic e w topic)"

text \<open>The loop, threading \<^verbatim>\<open>allPosts\<close> and the process state.\<close>

fun search_loop :: "env \<Rightarrow> bool \<Rightarrow> string list \<Rightarrow> RedditPost list \<Rightarrow> world
                      \<Rightarrow> (error + RedditPost list) \<times> world" where
  "search_loop e hasOAuth [] allPosts w = (Inr allPosts, w)"
| "search_loop e hasOAuth (topic # rest) allPosts w =
     (case search_topic e hasOAuth w topic of
        (Inl err, w1) \<Rightarrow> (Inl err, w1)
      | (Inr posts, w1) \<Rightarrow>
          search_loop e hasOAuth rest
            (if length posts > 0 then allPosts @ posts else allPosts) w1)"

text \<open>
  \<^verbatim>\<open>allPosts.filter((post, index, self) => index === self.findIndex(p => p.url === post.url))\<close>
\<close>

definition uniquePosts :: "RedditPost list \<Rightarrow> RedditPost list" where
  "uniquePosts allPosts =
     map snd (filter (\<lambda>(index, post). int index = findIndex (\<lambda>p. post_url p = post_url post) allPosts)
                (enumerate 0 allPosts))"

text \<open>
  \<^verbatim>\<open>uniquePosts.sort((a, b) => b.score - a.score).slice(0, 15)\<close>. The sort of the language is
  stable and the comparator orders by descending score, which is a stable sort on the
  negated score.
\<close>

definition sortedPosts :: "RedditPost list \<Rightarrow> RedditPost list" where
  "sortedPosts us = take 15 (sort_key (\<lambda>p. - post_score p) us)"

definition searchRedditPosts :: "env \<Rightarrow> world \<Rightarrow> string list \<Rightarrow> (error + RedditPost list) \<times> world" where
  "searchRedditPosts e w tps =
     (if length tps = 0 then (Inr [], w)
      else
        (let hasOAuth = (truthy (REDDIT_CLIENT_ID e) \<and> truthy (REDDIT_CLIENT_SECRET e))
         in case search_loop e hasOAuth (take 3 tps) [] w of
              (Inl err, w1) \<Rightarrow> (Inl err, w1)
            | (Inr allPosts, w1) \<Rightarrow> (Inr (sortedPosts (uniquePosts allPosts)), w1)))"

section \<open>News fetch (lib/external-apis.ts)\<close>




section \<open>Catalog lookup (lib/youtube-service.ts)\<close>






section \<open>Completion adapter (lib/ai-service.ts)\<close>




section \<open>Pipeline orchestrator (api/analyze-stream/route.ts)\<close>

text \<open>The messages written to the event stream, one constructor per \<^verbatim>\<open>type\<close>.\<close>

datatype event =
    Status string
  | ErrorEvent string "int option"
  | VideosEvent "YouTubeVideo list" string
  | TopicsEvent TopicAnalysis
  | NewsEvent "NewsArticle list"
  | RedditEvent "RedditPost list"
  | IdeasEvent "VideoIdea list"
  | Complete

text \<open>
  The stream controller: whether \<^verbatim>\<open>close()\<close> was called and the chunks enqueued so far.
  \<^verbatim>\<open>send\<close> does nothing without a controller and swallows the exception \<^verbatim>\<open>enqueue\<close> throws
  on a closed stream; \<^verbatim>\<open>close\<close> swallows the exception of a second \<^verbatim>\<open>close()\<close>.
\<close>

record controller =
  closed :: bool
  chunks :: "event list"

definition send :: "controller option \<Rightarrow> event \<Rightarrow> controller option" where
  "send ctrl ev =
     (case ctrl of
        None \<Rightarrow> None
      | Some c \<Rightarrow> if closed c then Some c else Some (c\<lparr>chunks := chunks c @ [ev]\<rparr>))"

definition close :: "controller option \<Rightarrow> controller option" where
  "close ctrl =
     (case ctrl of
        None \<Rightarrow> None
      | Some c \<Rightarrow> if closed c then Some c else Some (c\<lparr>closed := True\<rparr>))"

text \<open>The inbound request: the two address headers and the outcome of \<^verbatim>\<open>request.json()\<close>.\<close>

record http_request =
  x_forwarded_for :: "string option"
  x_real_ip :: "string option"
  json_url :: "error + string option"

text \<open>\<^verbatim>\<open>forwarded?.split(',')[0] || realIp || 'unknown'\<close>\<close>

definition getClientIdentifier :: "http_request \<Rightarrow> string" where
  "getClientIdentifier request =
     or_else (case x_forwarded_for request of
                None \<Rightarrow> None
              | Some f \<Rightarrow> Some (takeWhile (\<lambda>ch. ch \<noteq> CHR '','') f))
       (or_else (x_real_ip request) ''unknown'')"

definition checkRateLimit :: "limits \<Rightarrow> string \<Rightarrow> int \<Rightarrow> int \<Rightarrow> int \<Rightarrow> check_result \<times> limits" where
  "checkRateLimit lims identifier maxRequests windowSeconds t =
     check lims identifier maxRequests windowSeconds t"

text \<open>
  What the route imports and awaits. Each adapter call is given by the way its promise
  settles (\<open>Inl\<close> rejected, \<open>Inr\<close> fulfilled); the two clock readings are those of the two
  rate-limit checks.
\<close>

record adapters =
  YOUTUBE_API_KEY :: "string option"
  OPENAI_API_KEY :: "string option"
  now_ip :: int
  now_channel :: int
  toLocaleTimeString :: "int \<Rightarrow> string"
  imp_getChannelIdFromUrl :: "string \<Rightarrow> error + string option"
  imp_fetchChannelVideos :: "string \<Rightarrow> error + channel_videos"
  imp_analyzeTopics :: "YouTubeVideo list \<Rightarrow> error + TopicAnalysis"
  imp_fetchRelevantNews :: "string list \<Rightarrow> error + NewsArticle list"
  imp_searchRedditPosts :: "string list \<Rightarrow> error + RedditPost list"
  imp_generateVideoIdeas :: "YouTubeVideo list \<Rightarrow> string list \<Rightarrow> NewsArticle list
                              \<Rightarrow> RedditPost list \<Rightarrow> error + VideoIdea list"

text \<open>The adapter invocations of a run, in order, with their arguments.\<close>

datatype invocation =
    GetChannelIdFromUrl string
  | FetchChannelVideos string
  | AnalyzeTopics "YouTubeVideo list"
  | FetchRelevantNews "string list"
  | SearchRedditPosts "string list"
  | GenerateVideoIdeas "YouTubeVideo list" "string list" "NewsArticle list" "RedditPost list"

text \<open>The state a run threads: the rate limiter, the stream and the invocation log.\<close>

record run =
  run_limits :: limits
  run_controller :: "controller option"
  run_invoked :: "invocation list"

definition emit :: "run \<Rightarrow> event \<Rightarrow> run" where
  "emit r ev = r\<lparr>run_controller := send (run_controller r) ev\<rparr>"

definition finish :: "run \<Rightarrow> run" where
  "finish r = r\<lparr>run_controller := close (run_controller r)\<rparr>"

definition invoke :: "run \<Rightarrow> invocation \<Rightarrow> run" where
  "invoke r i = r\<lparr>run_invoked := run_invoked r @ [i]\<rparr>"

text \<open>\<^verbatim>\<open>result.status === 'fulfilled' ? result.value : []\<close>\<close>

definition fulfilled_or_empty :: "error + 'a list \<Rightarrow> 'a list" where
  "fulfilled_or_empty result = (case result of Inr v \<Rightarrow> v | Inl _ \<Rightarrow> [])"

text \<open>
  The \<^verbatim>\<open>try\<close> block of the handler, cut at the source's own step comments; the later
  steps come first because the earlier ones run into them. Each part ends normally
  (\<open>None\<close>, after \<^verbatim>\<open>close()\<close>) or by an exception (\<open>Some err\<close>), in both cases with the
  state reached.
\<close>

text \<open>\<^verbatim>\<open>// Step 4: Generate video ideas\<close>, then \<^verbatim>\<open>complete\<close>.\<close>

definition step4_ideas :: "adapters \<Rightarrow> YouTubeVideo list \<Rightarrow> TopicAnalysis \<Rightarrow> NewsArticle list
                             \<Rightarrow> RedditPost list \<Rightarrow> run \<Rightarrow> error option \<times> run" where
  "step4_ideas d videos tps news redditPosts r =
     (let r1 = invoke (emit r (Status ''Generating video ideas...''))
                 (GenerateVideoIdeas videos (topics tps) news redditPosts)
      in case imp_generateVideoIdeas d videos (topics tps) news redditPosts of
           Inl err \<Rightarrow> (Some err, r1)
         | Inr videoIdeas \<Rightarrow>
             (None, finish (emit (emit r1 (IdeasEvent videoIdeas)) Complete)))"

text \<open>
  \<^verbatim>\<open>// Step 3: Fetch news and Reddit in parallel\<close>: both calls are started, both promises
  are awaited with \<^verbatim>\<open>Promise.allSettled\<close>, and a rejected one counts as \<^verbatim>\<open>[]\<close>.
\<close>

definition step3_news_reddit :: "adapters \<Rightarrow> YouTubeVideo list \<Rightarrow> TopicAnalysis \<Rightarrow> run
                                   \<Rightarrow> error option \<times> run" where
  "step3_news_reddit d videos tps r =
     (let r1 = emit r (Status ''Fetching news and Reddit discussions...'');
          r2 = invoke (invoke r1 (FetchRelevantNews (topics tps))) (SearchRedditPosts (topics tps));
          newsResult = imp_fetchRelevantNews d (topics tps);
          redditResult = imp_searchRedditPosts d (topics tps);
          news = fulfilled_or_empty newsResult;
          redditPosts = fulfilled_or_empty redditResult;
          r3 = (if length news > 0 then emit r2 (NewsEvent news) else r2);
          r4 = (if length redditPosts > 0 then emit r3 (RedditEvent redditPosts) else r3)
      in step4_ideas d videos tps news redditPosts r4)"

text \<open>\<^verbatim>\<open>// Step 2: Analyze topics\<close>\<close>

definition step2_topics :: "adapters \<Rightarrow> YouTubeVideo list \<Rightarrow> run \<Rightarrow> error option \<times> run" where
  "step2_topics d videos r =
     (let r1 = invoke (emit r (Status ''Analyzing topics...'')) (AnalyzeTopics videos)
      in case imp_analyzeTopics d videos of
           Inl err \<Rightarrow> (Some err, r1)
         | Inr tps \<Rightarrow> step3_news_reddit d videos tps (emit r1 (TopicsEvent tps)))"

text \<open>The videos of the resolved channel, sent as they are.\<close>

definition step1_videos :: "adapters \<Rightarrow> string \<Rightarrow> run \<Rightarrow> error option \<times> run" where
  "step1_videos d channelId r =
     (let r1 = invoke r (FetchChannelVideos channelId)
      in case imp_fetchChannelVideos d channelId of
           Inl err \<Rightarrow> (Some err, r1)
         | Inr cv \<Rightarrow>
             step2_topics d (cv_videos cv)
               (emit r1 (VideosEvent (cv_videos cv) (cv_channelName cv))))"

text \<open>
  \<^verbatim>\<open>// Step 1: Get channel ID and fetch videos\<close> with
  \<^verbatim>\<open>// Additional rate limiting per channel\<close>.
\<close>

definition step1_channel :: "adapters \<Rightarrow> string \<Rightarrow> run \<Rightarrow> error option \<times> run" where
  "step1_channel d url r =
     (let r1 = invoke (emit r (Status ''Fetching channel videos...'')) (GetChannelIdFromUrl url)
      in case imp_getChannelIdFromUrl d url of
           Inl err \<Rightarrow> (Some err, r1)
         | Inr channelId \<Rightarrow>
             if \<not> truthy channelId then
               (None, finish (emit r1 (ErrorEvent ''Could not extract channel ID from URL'' None)))
             else
               (let (channelRateLimit, l2) =
                      checkRateLimit (run_limits r1) (''channel:'' @ interpolate channelId)
                        PER_CHANNEL_maxRequests PER_CHANNEL_windowSeconds (now_channel d);
                    r2 = r1\<lparr>run_limits := l2\<rparr>
                in if \<not> allowed channelRateLimit then
                     (None, finish (emit r2 (ErrorEvent
                        ''Too many requests for this channel. Please try again later.'' None)))
                   else step1_videos d (interpolate channelId) r2))"

text \<open>\<^verbatim>\<open>// Rate limiting\<close>, the request body and the configuration check.\<close>

definition POST_try :: "adapters \<Rightarrow> http_request \<Rightarrow> run \<Rightarrow> error option \<times> run" where
  "POST_try d request r0 =
     (let clientId = getClientIdentifier request;
          (rateLimit, l1) = checkRateLimit (run_limits r0) clientId PER_IP_maxRequests
                              PER_IP_windowSeconds (now_ip d);
          r1 = r0\<lparr>run_limits := l1\<rparr>
      in if \<not> allowed rateLimit then
           (None, finish (emit r1 (ErrorEvent
              (''Rate limit exceeded. Please try again after ''
                 @ toLocaleTimeString d (reset_at rateLimit))
              (Some (reset_at rateLimit)))))
         else
           (case json_url request of
              Inl err \<Rightarrow> (Some err, r1)
            | Inr url \<Rightarrow>
                if \<not> truthy url then
                  (None, finish (emit r1 (ErrorEvent ''URL is required'' None)))
                else if \<not> truthy (YOUTUBE_API_KEY d) \<or> \<not> truthy (OPENAI_API_KEY d) then
                  (None, finish (emit r1 (ErrorEvent ''API keys not configured'' None)))
                else step1_channel d (interpolate url) r1))"

text \<open>
  The handler: a fresh open stream, the \<^verbatim>\<open>try\<close> block, and the \<^verbatim>\<open>catch\<close> that reports
  \<^verbatim>\<open>error.message || 'An error occurred'\<close> and closes.
\<close>

definition fresh_run :: "limits \<Rightarrow> run" where
  "fresh_run lims = \<lparr>run_limits = lims,
                     run_controller = Some \<lparr>closed = False, chunks = []\<rparr>,
                     run_invoked = []\<rparr>"

definition POST_catch :: "error option \<times> run \<Rightarrow> run" where
  "POST_catch res =
     (case res of
        (None, r) \<Rightarrow> r
      | (Some err, r) \<Rightarrow>
          finish (emit r (ErrorEvent (or_else (Some (message err)) ''An error occurred'') None)))"

definition POST :: "adapters \<Rightarrow> limits \<Rightarrow> http_request \<Rightarrow> run" where
  "POST d lims request = POST_catch (POST_try d request (fresh_run lims))"

text \<open>The events a run wrote to the stream, and which of them end a run.\<close>

definition emitted :: "run \<Rightarrow> event list" where
  "emitted r = (case run_controller r of None \<Rightarrow> [] | Some c \<Rightarrow> chunks c)"

fun terminal :: "event \<Rightarrow> bool" where
  "terminal Complete = True"
| "terminal (ErrorEvent m t) = True"
| "terminal _ = False"

text \<open>
  Two shapes of the run state, for stating what a step leaves behind: the stream still
  open, or closed, with the given events and invocations.
\<close>

definition opened :: "limits \<Rightarrow> event list \<Rightarrow> invocation list \<Rightarrow> run" where
  "opened l evs ivs = \<lparr>run_limits = l, run_controller = Some \<lparr>closed = False, chunks = evs\<rparr>,
                        run_invoked = ivs\<rparr>"

definition ended :: "limits \<Rightarrow> event list \<Rightarrow> invocation list \<Rightarrow> run" where
  "ended l evs ivs = \<lparr>run_limits = l, run_controller = Some \<lparr>closed = True, chunks = evs\<rparr>,
                       run_invoked = ivs\<rparr>"

text \<open>The event the news stage and the forum stage contribute: none for an empty list.\<close>

definition partial_news :: "NewsArticle list \<Rightarrow> event list" where
  "partial_news news = (if length news > 0 then [NewsEvent news] else [])"

definition partial_reddit :: "RedditPost list \<Rightarrow> event list" where
  "partial_reddit redditPosts = (if length redditPosts > 0 then [RedditEvent redditPosts] else [])"


section \<open>Sample inputs\<close>

text \<open>
  A run in which everything succeeds except the news fetch, which rejects; the forum search
  returns one post and idea generation returns an empty list. Two variants: idea
  generation rejecting as well, and the news fetch returning an article.
\<close>

definition sample_video :: YouTubeVideo where
  "sample_video = \<lparr>video_id = ''v1'', video_title = ''First video'',
                    video_description = ''About the first video'',
                    video_publishedAt = ''2025-01-01T00:00:00Z'',
                    video_thumbnail = ''https://i.ytimg.com/vi/v1/hq.jpg'',
                    video_url = ''https://www.youtube.com/watch?v=v1''\<rparr>"

definition sample_topics :: TopicAnalysis where
  "sample_topics = \<lparr>topics = [''chess''], summary = ''A chess channel''\<rparr>"

definition sample_post :: RedditPost where
  "sample_post = \<lparr>post_title = ''Opening traps'', post_url = ''https://reddit.com/r/chess/1'',
                   post_subreddit = ''chess'', post_score = 42, post_created = 1700000000\<rparr>"

definition sample_article :: NewsArticle where
  "sample_article = \<lparr>news_title = ''Candidates announced'', news_url = ''https://news.example/1'',
                      news_source = ''Example'', news_publishedAt = ''2025-01-02''\<rparr>"

definition sample_adapters :: adapters where
  "sample_adapters =
     \<lparr>YOUTUBE_API_KEY = Some ''yt'', OPENAI_API_KEY = Some ''oa'',
      now_ip = 1000, now_channel = 1500,
      toLocaleTimeString = (\<lambda>t. ''12:00:00''),
      imp_getChannelIdFromUrl = (\<lambda>u. Inr (Some ''UC1'')),
      imp_fetchChannelVideos = (\<lambda>c. Inr \<lparr>cv_videos = [sample_video], cv_channelName = ''Sample''\<rparr>),
      imp_analyzeTopics = (\<lambda>vs. Inr sample_topics),
      imp_fetchRelevantNews = (\<lambda>ts. Inl (Error ''news provider unreachable'')),
      imp_searchRedditPosts = (\<lambda>ts. Inr [sample_post]),
      imp_generateVideoIdeas = (\<lambda>vs ts ns ps. Inr [])\<rparr>"

definition sample_adapters_ideas_fail :: adapters where
  "sample_adapters_ideas_fail =
     sample_adapters\<lparr>imp_generateVideoIdeas := (\<lambda>vs ts ns ps. Inl (Error ''completion failed''))\<rparr>"

definition sample_adapters_with_news :: adapters where
  "sample_adapters_with_news =
     sample_adapters\<lparr>imp_fetchRelevantNews := (\<lambda>ts. Inr [sample_article])\<rparr>"

definition sample_request :: http_request where
  "sample_request = \<lparr>x_forwarded_for = Some ''203.0.113.7, 10.0.0.1'', x_real_ip = None,
                      json_url = Inr (Some ''https://www.youtube.com/@sample'')\<rparr>"

text \<open>
  A process with Reddit credentials whose token endpoint grants a one-hour token, whose
  authenticated search finds nothing and whose public search finds two posts under one
  URL; the news provider times out, the video catalog knows no channel and the completion
  service is overloaded. Variants: without the client id, and with both searches empty.
\<close>

definition sample_child :: listing_data where
  "sample_child = \<lparr>ld_title = Some ''Opening traps'', ld_permalink = Some ''/r/chess/1'',
                    ld_subreddit = Str ''chess'', ld_id = Str ''1'', ld_score = Some 42,
                    ld_created_utc = Some 1700000000, ld_created = None\<rparr>"

definition sample_env :: env where
  "sample_env =
     \<lparr>REDDIT_CLIENT_ID = Some ''id'', REDDIT_CLIENT_SECRET = Some ''secret'',
      REDDIT_USER_AGENT = None, NEWS_API_KEY = Some ''key'',
      Date_now = (\<lambda>i. 1000000 + int i),
      toISODate = (\<lambda>t. ''2025-01-02''),
      token_endpoint = (\<lambda>i r. Inr \<lparr>access_token = ''tok'', token_type = ''bearer'',
                                     expires_in = 3600, scope = ''*''\<rparr>),
      oauth_search = (\<lambda>i r. Inr (Children [])),
      public_search = (\<lambda>i r. Inr (Children [Data sample_child,
                                              Data (sample_child\<lparr>ld_score := Some 7\<rparr>)])),
      newsapi = (\<lambda>i r. Inl (Error ''timeout of 10000ms exceeded'')),
      channels_list = (\<lambda>i r. Inr []),
      playlistItems_list = (\<lambda>i r. Inr []),
      videos_list = (\<lambda>i r. Inr []),
      chat_completion = (\<lambda>i r. Inl (Error ''overloaded'')),
      JSON_parse_topics = (\<lambda>s. Inl (Error ''Unexpected token'')),
      JSON_parse_ideas = (\<lambda>s. Inl (Error ''Unexpected token'')),
      kv_get = (\<lambda>i r. Inr None)\<rparr>"

definition sample_env_no_client_id :: env where
  "sample_env_no_client_id = sample_env\<lparr>REDDIT_CLIENT_ID := None\<rparr>"

definition sample_env_nothing_found :: env where
  "sample_env_nothing_found = sample_env\<lparr>public_search := (\<lambda>i r. Inr NoChildren)\<rparr>"

definition sample_world :: world where
  "sample_world = \<lparr>token_store = Map.empty, topics_store = Map.empty, reads = 0, requests = []\<rparr>"

definition sample_world_with_token :: world where
  "sample_world_with_token =
     sample_world\<lparr>token_store :=
       [token_key \<mapsto> \<lparr>data = \<lparr>token = ''old'', token_expiresAt = 5000000\<rparr>,
                      expiresAt = 4940000\<rparr>]\<rparr>"

definition sample_world_token_expiring :: world where
  "sample_world_token_expiring =
     sample_world\<lparr>token_store :=
       [token_key \<mapsto> \<lparr>data = \<lparr>token = ''old'', token_expiresAt = 1030000\<rparr>,
                      expiresAt = 1040000\<rparr>]\<rparr>"

text \<open>A pool of three posts, the third repeating the URL of the first.\<close>

definition sample_pool :: "RedditPost list" where
  "sample_pool =
     [sample_post,
      sample_post\<lparr>post_url := ''https://reddit.com/r/chess/2'', post_score := 99\<rparr>,
      sample_post\<lparr>post_title := ''Opening traps (crosspost)'', post_score := 7\<rparr>]"

section \<open>Failing providers\<close>





section \<open>Properties of the rate limiter\<close>

lemma check_seq_in_window:
  "lims ident = Some e \<Longrightarrow> \<forall>t\<in>set ts. t \<le> resetAt e \<Longrightarrow>
   map allowed (fst (check_seq lims ident m w ts)) = map (\<lambda>i. int i < m - count e) [0..<length ts]
   \<and> (\<forall>r\<in>set (fst (check_seq lims ident m w ts)). reset_at r = resetAt e)"
proof (induction ts arbitrary: lims e)
  case Nil
  then show ?case by simp
next
  case (Cons t ts)
  have t: "\<not> t > resetAt e" using Cons.prems by simp
  have rest: "\<forall>t\<in>set ts. t \<le> resetAt e" using Cons.prems by simp
  show ?case
  proof (cases "count e \<ge> m")
    case True
    then have c: "check lims ident m w t
        = (\<lparr>allowed = False, remaining = 0, reset_at = resetAt e\<rparr>, lims)"
      using Cons.prems(1) t by (simp add: check_def)
    from Cons.IH[of lims e, OF Cons.prems(1) rest] True show ?thesis
      by (simp add: c map_upt_Suc split_beta del: upt_Suc)
  next
    case False
    let ?e = "e\<lparr>count := count e + 1\<rparr>"
    have c: "check lims ident m w t =
        (\<lparr>allowed = True, remaining = m - (count e + 1), reset_at = resetAt e\<rparr>, lims(ident \<mapsto> ?e))"
      using Cons.prems(1) t False by (simp add: check_def Let_def)
    have "(lims(ident \<mapsto> ?e)) ident = Some ?e" by simp
    moreover have "\<forall>t\<in>set ts. t \<le> resetAt ?e" using rest by simp
    ultimately have ih: "map allowed (fst (check_seq (lims(ident \<mapsto> ?e)) ident m w ts)) =
        map (\<lambda>i. int i < m - count ?e) [0..<length ts]
      \<and> (\<forall>r\<in>set (fst (check_seq (lims(ident \<mapsto> ?e)) ident m w ts)). reset_at r = resetAt ?e)"
      by (rule Cons.IH)
    have eq: "\<And>i. (int i < m - (count e + 1)) = (int (Suc i) < m - count e)" by auto
    from ih False show ?thesis
      by (simp add: c map_upt_Suc eq split_beta del: upt_Suc)
  qed
qed

lemma ten_then_denied: "map (\<lambda>i. int i < 10 - 1) [0..<10] = replicate 9 True @ [False]"
  by code_simp

lemma check_opens_window:
  "lims ident = None \<or> (\<exists>e. lims ident = Some e \<and> resetAt e < t) \<Longrightarrow>
   check lims ident m w t
     = (\<lparr>allowed = True, remaining = m - 1, reset_at = t + w * 1000\<rparr>,
        lims(ident \<mapsto> \<lparr>count = 1, resetAt = t + w * 1000\<rparr>))"
  by (auto simp: check_def new_window_def Let_def)

text \<open>
  Claim C5, as the code has it. A \<^verbatim>\<open>check\<close> whose clock reading equals the stored
  \<^verbatim>\<open>resetAt\<close> is still counted against the stored window: below the limit it increments the
  count and is allowed with the old \<^verbatim>\<open>resetAt\<close>, at the limit it is denied with
  \<^verbatim>\<open>remaining = 0\<close> and nothing consumed. A fresh window (count 1, \<^verbatim>\<open>remaining =
  maxRequests - 1\<close>, \<^verbatim>\<open>resetAt = now + windowSeconds * 1000\<close>) starts only at a reading
  strictly after \<^verbatim>\<open>resetAt\<close>.
\<close>

theorem check_at_reset_instant:
  assumes "lims ident = Some e"
  shows "(t = resetAt e \<longrightarrow>
            check lims ident m w t =
              (if count e \<ge> m
               then (\<lparr>allowed = False, remaining = 0, reset_at = resetAt e\<rparr>, lims)
               else (\<lparr>allowed = True, remaining = m - (count e + 1), reset_at = resetAt e\<rparr>,
                     lims(ident \<mapsto> e\<lparr>count := count e + 1\<rparr>))))
       \<and> (resetAt e < t \<longrightarrow>
            check lims ident m w t =
              (\<lparr>allowed = True, remaining = m - 1, reset_at = t + w * 1000\<rparr>,
               lims(ident \<mapsto> \<lparr>count = 1, resetAt = t + w * 1000\<rparr>)))"
  using assms by (simp add: check_def new_window_def Let_def)

theorem check_at_reset_instant_witness:
  "[''203.0.113.7'' \<mapsto> \<lparr>count = 3, resetAt = 60000\<rparr>] ''203.0.113.7''
     = Some \<lparr>count = 3, resetAt = 60000\<rparr>
   \<and> check [''203.0.113.7'' \<mapsto> \<lparr>count = 3, resetAt = 60000\<rparr>] ''203.0.113.7'' 10 60 60000
       = (\<lparr>allowed = True, remaining = 6, reset_at = 60000\<rparr>,
          [''203.0.113.7'' \<mapsto> \<lparr>count = 4, resetAt = 60000\<rparr>])
   \<and> check [''203.0.113.7'' \<mapsto> \<lparr>count = 3, resetAt = 60000\<rparr>] ''203.0.113.7'' 10 60 60001
       = (\<lparr>allowed = True, remaining = 9, reset_at = 120001\<rparr>,
          [''203.0.113.7'' \<mapsto> \<lparr>count = 1, resetAt = 120001\<rparr>])"
  using check_at_reset_instant
          [of "[''203.0.113.7'' \<mapsto> \<lparr>count = 3, resetAt = 60000\<rparr>]" "''203.0.113.7''"
              "\<lparr>count = 3, resetAt = 60000\<rparr>" 60000 10 60]
        check_at_reset_instant
          [of "[''203.0.113.7'' \<mapsto> \<lparr>count = 3, resetAt = 60000\<rparr>]" "''203.0.113.7''"
              "\<lparr>count = 3, resetAt = 60000\<rparr>" 60001 10 60]
  by simp

text \<open>
  Claim C5 as stated fails: with ten requests already counted in a window that resets at
  60000, the call at exactly 60000 is denied, and with three counted it is the fourth of the
  old window (six remaining), not the first of a new one.
\<close>

theorem check_at_reset_instant_counterexample:
  "\<not> allowed (fst (check [''203.0.113.7'' \<mapsto> \<lparr>count = 10, resetAt = 60000\<rparr>]
                       ''203.0.113.7'' 10 60 60000))
   \<and> remaining (fst (check [''203.0.113.7'' \<mapsto> \<lparr>count = 3, resetAt = 60000\<rparr>]
                       ''203.0.113.7'' 10 60 60000)) \<noteq> 10 - 1"
  by (simp add: check_def)

text \<open>
  Claim C6. Eleven consecutive \<^verbatim>\<open>check\<close> calls for one identifier with \<^verbatim>\<open>maxRequests =
  10\<close>, the first of which opens the window (no entry is stored, or the stored one has
  expired) and the other ten of which arrive no later than that window's reset instant:
  the first ten are allowed, the eleventh is denied, and all eleven results carry the same
  \<^verbatim>\<open>resetAt\<close>.
\<close>

theorem eleven_checks_in_one_window:
  assumes opens: "lims ident = None \<or> (\<exists>e. lims ident = Some e \<and> resetAt e < t1)"
    and ten: "length ts = 10"
    and inside: "\<forall>t\<in>set ts. t \<le> t1 + w * 1000"
  shows "map allowed (fst (check_seq lims ident 10 w (t1 # ts))) = replicate 10 True @ [False]
       \<and> (\<forall>r\<in>set (fst (check_seq lims ident 10 w (t1 # ts))). reset_at r = t1 + w * 1000)"
proof -
  let ?e = "\<lparr>count = 1, resetAt = t1 + w * 1000\<rparr>"
  let ?l = "lims(ident \<mapsto> ?e)"
  have first: "check lims ident 10 w t1
      = (\<lparr>allowed = True, remaining = 10 - 1, reset_at = t1 + w * 1000\<rparr>, ?l)"
    using opens by (rule check_opens_window)
  have "?l ident = Some ?e" by simp
  moreover have "\<forall>t\<in>set ts. t \<le> resetAt ?e" using inside by simp
  ultimately have rest:
    "map allowed (fst (check_seq ?l ident 10 w ts)) = map (\<lambda>i. int i < 10 - count ?e) [0..<length ts]
     \<and> (\<forall>r\<in>set (fst (check_seq ?l ident 10 w ts)). reset_at r = resetAt ?e)"
    by (rule check_seq_in_window)
  then have a: "map allowed (fst (check_seq ?l ident 10 w ts)) = replicate 9 True @ [False]"
    using ten ten_then_denied by simp
  have r: "\<forall>r\<in>set (fst (check_seq ?l ident 10 w ts)). reset_at r = t1 + w * 1000"
    using rest by simp
  have unfold: "fst (check_seq lims ident 10 w (t1 # ts))
      = \<lparr>allowed = True, remaining = 10 - 1, reset_at = t1 + w * 1000\<rparr>
          # fst (check_seq ?l ident 10 w ts)"
    by (simp add: first split_beta)
  have "replicate 10 True @ [False] = True # replicate 9 True @ [False]"
    by (simp add: numeral_eq_Suc)
  then show ?thesis
    using a r unfolding unfold by simp
qed

theorem eleven_checks_in_one_window_witness:
  "(Map.empty ''203.0.113.7'' = None
      \<or> (\<exists>e. Map.empty ''203.0.113.7'' = Some e \<and> resetAt e < 1000))
   \<and> length [1001, 1002, 1003, 1004, 1005, 1006, 1007, 1008, 1009, 61000 :: int] = 10
   \<and> list_all (\<lambda>t. t \<le> 1000 + 60 * 1000)
        [1001, 1002, 1003, 1004, 1005, 1006, 1007, 1008, 1009, 61000 :: int]
   \<and> map allowed (fst (check_seq Map.empty ''203.0.113.7'' 10 60
        (1000 # [1001, 1002, 1003, 1004, 1005, 1006, 1007, 1008, 1009, 61000])))
       = replicate 10 True @ [False]
   \<and> list_all (\<lambda>r. reset_at r = 1000 + 60 * 1000)
        (fst (check_seq Map.empty ''203.0.113.7'' 10 60
           (1000 # [1001, 1002, 1003, 1004, 1005, 1006, 1007, 1008, 1009, 61000])))"
proof -
  have h1: "(Map.empty :: limits) ''203.0.113.7'' = None
      \<or> (\<exists>e. (Map.empty :: limits) ''203.0.113.7'' = Some e \<and> resetAt e < 1000)" by simp
  have h2: "length [1001, 1002, 1003, 1004, 1005, 1006, 1007, 1008, 1009, 61000 :: int] = 10"
    by simp
  have h3: "\<forall>t\<in>set [1001, 1002, 1003, 1004, 1005, 1006, 1007, 1008, 1009, 61000 :: int].
         t \<le> 1000 + 60 * 1000" by simp
  from eleven_checks_in_one_window [OF h1 h2 h3] h1 h2 h3 show ?thesis
    unfolding list_all_iff by blast
qed

section \<open>Properties of the in-memory cache\<close>

lemma run_op_absent: "c k = None \<Longrightarrow> \<not> sets_key k x \<Longrightarrow> run_op c x k = None"
  by (cases x) (auto simp: cache_set_def cache_get_def cache_delete_def cache_clear_def
      cache_cleanup_def split: option.splits)

lemma run_ops_absent: "c k = None \<Longrightarrow> \<forall>x\<in>set xs. \<not> sets_key k x \<Longrightarrow> run_ops c xs k = None"
  by (induction xs arbitrary: c) (auto simp: run_op_absent)

text \<open>
  Claim C8. (1) After \<^verbatim>\<open>set(k, v, ttl)\<close> at instant \<open>t0\<close>, a \<^verbatim>\<open>get(k)\<close> at any instant up to
  and including the expiry \<open>t0 + ttl * 1000\<close> returns \<open>v\<close> and leaves the store alone; in
  particular the \<^verbatim>\<open>get\<close> at the very instant of the \<^verbatim>\<open>set\<close> returns \<open>v\<close>, a time to live not
  being negative. (2) A \<^verbatim>\<open>get(k)\<close> strictly after the entry's expiry returns absent and
  removes the entry. (3) After \<^verbatim>\<open>delete(k)\<close>, whatever operations follow, as long as none of
  them is a \<^verbatim>\<open>set\<close> of \<open>k\<close>, \<^verbatim>\<open>get(k)\<close> returns absent.
\<close>

theorem cache_set_get_delete:
  "(t \<le> t0 + ttl * 1000 \<longrightarrow>
      cache_get (cache_set c k v ttl t0) k t = (Some v, cache_set c k v ttl t0))
   \<and> (0 \<le> ttl \<longrightarrow> fst (cache_get (cache_set c k v ttl t0) k t0) = Some v)
   \<and> (c k = Some e \<and> expiresAt e < t \<longrightarrow> cache_get c k t = (None, c(k := None)))
   \<and> ((\<forall>x\<in>set ops. \<not> sets_key k x) \<longrightarrow>
        cache_get (run_ops (cache_delete c k) ops) k t = (None, run_ops (cache_delete c k) ops))"
proof -
  have "(cache_delete c k) k = None" by (simp add: cache_delete_def)
  then have "(\<forall>x\<in>set ops. \<not> sets_key k x) \<longrightarrow> run_ops (cache_delete c k) ops k = None"
    by (simp add: run_ops_absent)
  then show ?thesis
    by (auto simp: cache_get_def cache_set_def)
qed

theorem cache_set_get_delete_witness:
  "(1500 \<le> (1000::int) + 2 * 1000
     \<and> cache_get (cache_set Map.empty ''a'' ''v'' 2 1000) ''a'' 1500
        = (Some ''v'', cache_set Map.empty ''a'' ''v'' 2 1000))
   \<and> ((0::int) \<le> 2 \<and> fst (cache_get (cache_set Map.empty ''a'' ''v'' 2 1000) ''a'' 1000) = Some ''v'')
   \<and> ([''a'' \<mapsto> \<lparr>data = ''v'', expiresAt = 3000\<rparr>] ''a'' = Some \<lparr>data = ''v'', expiresAt = 3000\<rparr>
       \<and> (3000::int) < 3001
       \<and> cache_get [''a'' \<mapsto> \<lparr>data = ''v'', expiresAt = 3000\<rparr>] ''a'' 3001
          = (None, [''a'' \<mapsto> \<lparr>data = ''v'', expiresAt = 3000\<rparr>](''a'' := None)))
   \<and> (list_all (\<lambda>x. \<not> sets_key ''a'' x) [OpGet ''a'' 5, OpSet ''b'' ''w'' 1 5]
       \<and> fst (cache_get (run_ops (cache_delete [''a'' \<mapsto> \<lparr>data = ''v'', expiresAt = 3000\<rparr>] ''a'')
                 [OpGet ''a'' 5, OpSet ''b'' ''w'' 1 5]) ''a'' 6) = None)"
  using cache_set_get_delete [of 1500 1000 2 "Map.empty" "''a''" "''v''"
        "\<lparr>data = ''v'', expiresAt = 3000\<rparr>" "[OpGet ''a'' 5, OpSet ''b'' ''w'' 1 5]"]
    cache_set_get_delete [of 1000 1000 2 "Map.empty" "''a''" "''v''"
        "\<lparr>data = ''v'', expiresAt = 3000\<rparr>" "[]"]
    cache_set_get_delete [of 3001 1000 2 "[''a'' \<mapsto> \<lparr>data = ''v'', expiresAt = 3000\<rparr>]" "''a''" "''v''"
        "\<lparr>data = ''v'', expiresAt = 3000\<rparr>" "[]"]
    cache_set_get_delete [of 6 1000 2 "[''a'' \<mapsto> \<lparr>data = ''v'', expiresAt = 3000\<rparr>]" "''a''" "''v''"
        "\<lparr>data = ''v'', expiresAt = 3000\<rparr>" "[OpGet ''a'' 5, OpSet ''b'' ''w'' 1 5]"]
  by simp

text \<open>
  \<^verbatim>\<open>set\<close> does not check its \<open>ttl\<close>: with a negative one the entry is stored already
  expired, and part (2) applies to the \<^verbatim>\<open>get\<close> at the same instant.
\<close>

lemma cache_negative_ttl:
  "fst (cache_get (cache_set Map.empty ''a'' ''v'' (- 1) 1000) ''a'' 1000) = None"
  by (simp add: cache_get_def cache_set_def)

section \<open>Properties of the pipeline orchestrator\<close>

lemma emit_opened [simp]: "emit (opened l evs ivs) ev = opened l (evs @ [ev]) ivs"
  by (simp add: emit_def opened_def send_def)

lemma finish_opened [simp]: "finish (opened l evs ivs) = ended l evs ivs"
  by (simp add: finish_def opened_def ended_def close_def)

lemma invoke_opened [simp]: "invoke (opened l evs ivs) i = opened l evs (ivs @ [i])"
  by (simp add: invoke_def opened_def)

lemma limits_opened [simp]:
  "run_limits (opened l evs ivs) = l" "(opened l evs ivs)\<lparr>run_limits := l'\<rparr> = opened l' evs ivs"
  by (simp_all add: opened_def)

lemma fresh_run_opened: "fresh_run lims = opened lims [] []"
  by (simp add: fresh_run_def opened_def)

lemma observe_opened [simp]:
  "emitted (opened l evs ivs) = evs" "run_invoked (opened l evs ivs) = ivs"
  by (simp_all add: emitted_def opened_def)

lemma observe_ended [simp]:
  "emitted (ended l evs ivs) = evs" "run_invoked (ended l evs ivs) = ivs"
  "run_limits (ended l evs ivs) = l"
  by (simp_all add: emitted_def ended_def)

lemmas handler_defs = POST_def POST_catch_def POST_try_def step1_channel_def step1_videos_def
  step2_topics_def step3_news_reddit_def step4_ideas_def Let_def fresh_run_opened
  checkRateLimit_def

subsection \<open>The six ways a run can go\<close>

text \<open>
  Every run ends in one of six shapes: before any stage (rate limit, body, URL or keys),
  at channel resolution or the channel's rate limit, at the video fetch, at topic analysis,
  at idea generation, or complete. The news and forum events are there exactly when the
  list contributed is non-empty.
\<close>

lemma step4_run:
  "POST_catch (step4_ideas d vs ta news posts (opened l evs ivs)) =
     ended l (evs @ Status ''Generating video ideas...''
                # (case imp_generateVideoIdeas d vs (topics ta) news posts of
                     Inl e \<Rightarrow> [ErrorEvent (or_else (Some (message e)) ''An error occurred'') None]
                   | Inr ideas \<Rightarrow> [IdeasEvent ideas, Complete]))
       (ivs @ [GenerateVideoIdeas vs (topics ta) news posts])"
  by (simp add: step4_ideas_def POST_catch_def Let_def split: sum.splits)

lemma step3_run:
  "POST_catch (step3_news_reddit d vs ta (opened l evs ivs)) =
     ended l (evs @ Status ''Fetching news and Reddit discussions...''
                # partial_news (fulfilled_or_empty (imp_fetchRelevantNews d (topics ta)))
                @ partial_reddit (fulfilled_or_empty (imp_searchRedditPosts d (topics ta)))
                @ Status ''Generating video ideas...''
                # (case imp_generateVideoIdeas d vs (topics ta)
                          (fulfilled_or_empty (imp_fetchRelevantNews d (topics ta)))
                          (fulfilled_or_empty (imp_searchRedditPosts d (topics ta))) of
                     Inl e \<Rightarrow> [ErrorEvent (or_else (Some (message e)) ''An error occurred'') None]
                   | Inr ideas \<Rightarrow> [IdeasEvent ideas, Complete]))
       (ivs @ [FetchRelevantNews (topics ta), SearchRedditPosts (topics ta),
               GenerateVideoIdeas vs (topics ta)
                 (fulfilled_or_empty (imp_fetchRelevantNews d (topics ta)))
                 (fulfilled_or_empty (imp_searchRedditPosts d (topics ta)))])"
  by (simp add: step3_news_reddit_def Let_def step4_run partial_news_def partial_reddit_def)


lemma POST_cases [case_names early channel videos analysis ideas complete]:
  obtains
    (early) l m t where
      "POST d lims request = ended l [ErrorEvent m t] []"
  | (channel) l url m where
      "POST d lims request
         = ended l [Status ''Fetching channel videos...'', ErrorEvent m None]
             [GetChannelIdFromUrl url]"
  | (videos) l url cid m where
      "POST d lims request
         = ended l [Status ''Fetching channel videos...'', ErrorEvent m None]
             [GetChannelIdFromUrl url, FetchChannelVideos cid]"
      "\<exists>e. imp_fetchChannelVideos d cid = Inl e"
  | (analysis) l url cid cv m where
      "imp_fetchChannelVideos d cid = Inr cv"
      "\<exists>e. imp_analyzeTopics d (cv_videos cv) = Inl e"
      "POST d lims request
         = ended l [Status ''Fetching channel videos...'',
                    VideosEvent (cv_videos cv) (cv_channelName cv),
                    Status ''Analyzing topics...'', ErrorEvent m None]
             [GetChannelIdFromUrl url, FetchChannelVideos cid, AnalyzeTopics (cv_videos cv)]"
  | (ideas) l url cid cv ta news posts m where
      "imp_fetchChannelVideos d cid = Inr cv"
      "imp_analyzeTopics d (cv_videos cv) = Inr ta"
      "news = fulfilled_or_empty (imp_fetchRelevantNews d (topics ta))"
      "posts = fulfilled_or_empty (imp_searchRedditPosts d (topics ta))"
      "\<exists>e. imp_generateVideoIdeas d (cv_videos cv) (topics ta) news posts = Inl e"
      "POST d lims request
         = ended l ([Status ''Fetching channel videos...'',
                     VideosEvent (cv_videos cv) (cv_channelName cv),
                     Status ''Analyzing topics...'', TopicsEvent ta,
                     Status ''Fetching news and Reddit discussions...'']
                    @ partial_news news @ partial_reddit posts
                    @ [Status ''Generating video ideas...'', ErrorEvent m None])
             [GetChannelIdFromUrl url, FetchChannelVideos cid, AnalyzeTopics (cv_videos cv),
              FetchRelevantNews (topics ta), SearchRedditPosts (topics ta),
              GenerateVideoIdeas (cv_videos cv) (topics ta) news posts]"
  | (complete) l url cid cv ta news posts videoIdeas where
      "imp_fetchChannelVideos d cid = Inr cv"
      "imp_analyzeTopics d (cv_videos cv) = Inr ta"
      "news = fulfilled_or_empty (imp_fetchRelevantNews d (topics ta))"
      "posts = fulfilled_or_empty (imp_searchRedditPosts d (topics ta))"
      "imp_generateVideoIdeas d (cv_videos cv) (topics ta) news posts = Inr videoIdeas"
      "POST d lims request
         = ended l ([Status ''Fetching channel videos...'',
                     VideosEvent (cv_videos cv) (cv_channelName cv),
                     Status ''Analyzing topics...'', TopicsEvent ta,
                     Status ''Fetching news and Reddit discussions...'']
                    @ partial_news news @ partial_reddit posts
                    @ [Status ''Generating video ideas...'', IdeasEvent videoIdeas, Complete])
             [GetChannelIdFromUrl url, FetchChannelVideos cid, AnalyzeTopics (cv_videos cv),
              FetchRelevantNews (topics ta), SearchRedditPosts (topics ta),
              GenerateVideoIdeas (cv_videos cv) (topics ta) news posts]"
proof -
  obtain rl l1 where ip:
    "check lims (getClientIdentifier request) PER_IP_maxRequests PER_IP_windowSeconds (now_ip d)
       = (rl, l1)"
    by (cases "check lims (getClientIdentifier request) PER_IP_maxRequests PER_IP_windowSeconds
                 (now_ip d)")
  have start: "POST d lims request = POST_catch (POST_try d request (opened lims [] []))"
    by (simp add: POST_def fresh_run_opened)
  show thesis
  proof (cases "allowed rl")
    case False
    with ip have "POST d lims request = ended l1 [ErrorEvent
        (''Rate limit exceeded. Please try again after '' @ toLocaleTimeString d (reset_at rl))
        (Some (reset_at rl))] []"
      by (simp add: start POST_try_def POST_catch_def checkRateLimit_def Let_def)
    then show thesis by (rule early)
  next
    case ok: True
    show thesis
    proof (cases "json_url request")
      case (Inl e)
      with ip ok have "POST d lims request = ended l1
          [ErrorEvent (or_else (Some (message e)) ''An error occurred'') None] []"
        by (simp add: start POST_try_def POST_catch_def checkRateLimit_def Let_def)
      then show thesis by (rule early)
    next
      case body: (Inr url)
      show thesis
      proof (cases "truthy url \<and> truthy (YOUTUBE_API_KEY d) \<and> truthy (OPENAI_API_KEY d)")
        case False
        with ip ok body have "\<exists>m. POST d lims request = ended l1 [ErrorEvent m None] []"
          by (auto simp add: start POST_try_def POST_catch_def checkRateLimit_def Let_def)
        then show thesis using early by blast
      next
        case conf: True
        let ?u = "interpolate url"
        let ?s1 = "Status ''Fetching channel videos...''"
        have try1: "POST d lims request = POST_catch (step1_channel d ?u (opened l1 [] []))"
          using ip ok body conf by (simp add: start POST_try_def checkRateLimit_def Let_def)
        show thesis
        proof (cases "imp_getChannelIdFromUrl d ?u")
          case (Inl e)
          then have "POST d lims request = ended l1
              [?s1, ErrorEvent (or_else (Some (message e)) ''An error occurred'') None]
              [GetChannelIdFromUrl ?u]"
            by (simp add: try1 step1_channel_def POST_catch_def Let_def)
          then show thesis by (rule channel)
        next
          case res: (Inr channelId)
          obtain crl l2 where ch:
            "check l1 (''channel:'' @ interpolate channelId) PER_CHANNEL_maxRequests
               PER_CHANNEL_windowSeconds (now_channel d) = (crl, l2)"
            by (cases "check l1 (''channel:'' @ interpolate channelId) PER_CHANNEL_maxRequests
                         PER_CHANNEL_windowSeconds (now_channel d)")
          show thesis
          proof (cases "truthy channelId \<and> allowed crl")
            case False
            with res ch have "\<exists>l m. POST d lims request
                = ended l [?s1, ErrorEvent m None] [GetChannelIdFromUrl ?u]"
              by (auto simp add: try1 step1_channel_def POST_catch_def checkRateLimit_def Let_def)
            then show thesis using channel by blast
          next
            case pass: True
            let ?c = "interpolate channelId"
            have try2: "POST d lims request
                = POST_catch (step1_videos d ?c (opened l2 [?s1] [GetChannelIdFromUrl ?u]))"
              using res ch pass by (simp add: try1 step1_channel_def checkRateLimit_def Let_def)
            show thesis
            proof (cases "imp_fetchChannelVideos d ?c")
              case (Inl e)
              then have "POST d lims request = ended l2
                  [?s1, ErrorEvent (or_else (Some (message e)) ''An error occurred'') None]
                  [GetChannelIdFromUrl ?u, FetchChannelVideos ?c]"
                by (simp add: try2 step1_videos_def POST_catch_def Let_def)
              then show thesis using Inl by (intro videos) auto
            next
              case vid: (Inr cv)
              let ?v = "VideosEvent (cv_videos cv) (cv_channelName cv)"
              let ?s2 = "Status ''Analyzing topics...''"
              have try3: "POST d lims request
                  = POST_catch (step2_topics d (cv_videos cv)
                      (opened l2 [?s1, ?v] [GetChannelIdFromUrl ?u, FetchChannelVideos ?c]))"
                using vid by (simp add: try2 step1_videos_def Let_def)
              show thesis
              proof (cases "imp_analyzeTopics d (cv_videos cv)")
                case (Inl e)
                then have "POST d lims request = ended l2
                    [?s1, ?v, ?s2,
                     ErrorEvent (or_else (Some (message e)) ''An error occurred'') None]
                    [GetChannelIdFromUrl ?u, FetchChannelVideos ?c, AnalyzeTopics (cv_videos cv)]"
                  by (simp add: try3 step2_topics_def POST_catch_def Let_def)
                then show thesis using vid Inl by (intro analysis) auto
              next
                case an: (Inr ta)
                let ?news = "fulfilled_or_empty (imp_fetchRelevantNews d (topics ta))"
                let ?posts = "fulfilled_or_empty (imp_searchRedditPosts d (topics ta))"
                have try4: "POST d lims request
                    = POST_catch (step3_news_reddit d (cv_videos cv) ta
                        (opened l2 [?s1, ?v, ?s2, TopicsEvent ta]
                           [GetChannelIdFromUrl ?u, FetchChannelVideos ?c,
                            AnalyzeTopics (cv_videos cv)]))"
                  using an by (simp add: try3 step2_topics_def Let_def)
                show thesis
                proof (cases "imp_generateVideoIdeas d (cv_videos cv) (topics ta) ?news ?posts")
                  case (Inl e)
                  then have "POST d lims request
                     = ended l2 ([?s1, ?v, ?s2, TopicsEvent ta,
                                  Status ''Fetching news and Reddit discussions...'']
                                 @ partial_news ?news @ partial_reddit ?posts
                                 @ [Status ''Generating video ideas...'',
                                    ErrorEvent (or_else (Some (message e)) ''An error occurred'')
                                      None])
                         [GetChannelIdFromUrl ?u, FetchChannelVideos ?c,
                          AnalyzeTopics (cv_videos cv),
                          FetchRelevantNews (topics ta), SearchRedditPosts (topics ta),
                          GenerateVideoIdeas (cv_videos cv) (topics ta) ?news ?posts]"
                    by (simp add: try4 step3_run)
                  then show thesis using vid an Inl by (intro ideas[of ?c cv ta ?news ?posts]) auto
                next
                  case (Inr videoIdeas)
                  then have "POST d lims request
                     = ended l2 ([?s1, ?v, ?s2, TopicsEvent ta,
                                  Status ''Fetching news and Reddit discussions...'']
                                 @ partial_news ?news @ partial_reddit ?posts
                                 @ [Status ''Generating video ideas...'', IdeasEvent videoIdeas,
                                    Complete])
                         [GetChannelIdFromUrl ?u, FetchChannelVideos ?c,
                          AnalyzeTopics (cv_videos cv),
                          FetchRelevantNews (topics ta), SearchRedditPosts (topics ta),
                          GenerateVideoIdeas (cv_videos cv) (topics ta) ?news ?posts]"
                    by (simp add: try4 step3_run)
                  then show thesis using vid an Inr
                    by (intro complete[of ?c cv ta ?news ?posts videoIdeas]) auto
                qed
              qed
            qed
          qed
        qed
      qed
    qed
  qed
qed

subsection \<open>Exactly one terminal event\<close>

text \<open>
  Claim C2. Whatever the request, the limiter state and the behaviour of the adapters, the
  events a run writes contain exactly one terminal event (\<^verbatim>\<open>complete\<close> or \<^verbatim>\<open>error\<close>), it
  is the last event written, and \<^verbatim>\<open>complete\<close> and \<^verbatim>\<open>error\<close> never both occur.
\<close>

theorem one_terminal_event:
  "length (filter terminal (emitted (POST d lims request))) = 1
   \<and> terminal (last (emitted (POST d lims request)))
   \<and> \<not> (Complete \<in> set (emitted (POST d lims request))
        \<and> (\<exists>m t. ErrorEvent m t \<in> set (emitted (POST d lims request))))"
proof (cases rule: POST_cases[of d lims request])
  case (early l m t)
  then show ?thesis by simp
next
  case (channel l url m)
  then show ?thesis by simp
next
  case (videos l url cid m)
  then show ?thesis by simp
next
  case (analysis l url cid cv m)
  then show ?thesis by simp
next
  case (ideas l url cid cv ta news posts m)
  then show ?thesis by (simp add: partial_news_def partial_reddit_def)
next
  case (complete l url cid cv ta news posts videoIdeas)
  then show ?thesis by (simp add: partial_news_def partial_reddit_def)
qed

lemmas sample_defs = sample_adapters_def sample_adapters_ideas_fail_def
  sample_adapters_with_news_def sample_request_def getClientIdentifier_def check_def
  new_window_def PER_IP_maxRequests_def PER_IP_windowSeconds_def PER_CHANNEL_maxRequests_def
  PER_CHANNEL_windowSeconds_def fulfilled_or_empty_def

lemma sample_run:
  "emitted (POST sample_adapters Map.empty sample_request) =
     [Status ''Fetching channel videos...'', VideosEvent [sample_video] ''Sample'',
      Status ''Analyzing topics...'', TopicsEvent sample_topics,
      Status ''Fetching news and Reddit discussions...'', RedditEvent [sample_post],
      Status ''Generating video ideas...'', IdeasEvent [], Complete]"
  by (simp add: handler_defs sample_defs)

lemma sample_run_invoked:
  "run_invoked (POST sample_adapters Map.empty sample_request) =
     [GetChannelIdFromUrl ''https://www.youtube.com/@sample'', FetchChannelVideos ''UC1'',
      AnalyzeTopics [sample_video], FetchRelevantNews (topics sample_topics),
      SearchRedditPosts (topics sample_topics),
      GenerateVideoIdeas [sample_video] (topics sample_topics) [] [sample_post]]"
  by (simp add: handler_defs sample_defs)

lemma sample_run_ideas_fail:
  "emitted (POST sample_adapters_ideas_fail Map.empty sample_request) =
     [Status ''Fetching channel videos...'', VideosEvent [sample_video] ''Sample'',
      Status ''Analyzing topics...'', TopicsEvent sample_topics,
      Status ''Fetching news and Reddit discussions...'', RedditEvent [sample_post],
      Status ''Generating video ideas...'', ErrorEvent ''completion failed'' None]"
  by (simp add: handler_defs sample_defs)

lemma sample_run_with_news:
  "emitted (POST sample_adapters_with_news Map.empty sample_request) =
     [Status ''Fetching channel videos...'', VideosEvent [sample_video] ''Sample'',
      Status ''Analyzing topics...'', TopicsEvent sample_topics,
      Status ''Fetching news and Reddit discussions...'', NewsEvent [sample_article],
      RedditEvent [sample_post],
      Status ''Generating video ideas...'', IdeasEvent [], Complete]"
  by (simp add: handler_defs sample_defs)

theorem one_terminal_event_witness:
  "length (filter terminal (emitted (POST sample_adapters Map.empty sample_request))) = 1
   \<and> terminal (last (emitted (POST sample_adapters Map.empty sample_request)))
   \<and> \<not> (Complete \<in> set (emitted (POST sample_adapters Map.empty sample_request))
        \<and> (\<exists>m t. ErrorEvent m t \<in> set (emitted (POST sample_adapters Map.empty sample_request))))
   \<and> last (emitted (POST sample_adapters Map.empty sample_request)) = Complete
   \<and> length (filter terminal (emitted (POST sample_adapters_ideas_fail Map.empty sample_request))) = 1
   \<and> last (emitted (POST sample_adapters_ideas_fail Map.empty sample_request))
       = ErrorEvent ''completion failed'' None"
  using one_terminal_event [of sample_adapters Map.empty sample_request]
        one_terminal_event [of sample_adapters_ideas_fail Map.empty sample_request]
  by (simp add: sample_run sample_run_ideas_fail)

subsection \<open>A failing news fetch is isolated\<close>

text \<open>
  Claim C1. In a run that passes both rate limits, has a URL and the API keys, resolves the
  channel and obtains videos and topics, and in which the news fetch rejects while the forum
  search fulfils with a non-empty list: the empty list stands in for the news, idea
  generation is invoked with the empty news list and the fetched posts, and no news event
  is written. Once idea generation has returned, the events of the run are exactly status,
  videos, status, topics, status, reddit, status, ideas, complete: no error event, and
  \<^verbatim>\<open>complete\<close> at the end.
\<close>

theorem news_failure_is_isolated:
  assumes ip: "check lims (getClientIdentifier request) PER_IP_maxRequests PER_IP_windowSeconds
                 (now_ip d) = (rl, l1)" "allowed rl"
    and body: "json_url request = Inr (Some url)" "url \<noteq> []"
    and keys: "truthy (YOUTUBE_API_KEY d)" "truthy (OPENAI_API_KEY d)"
    and channel: "imp_getChannelIdFromUrl d url = Inr (Some cid)" "cid \<noteq> []"
    and ch: "check l1 (''channel:'' @ cid) PER_CHANNEL_maxRequests PER_CHANNEL_windowSeconds
               (now_channel d) = (crl, l2)" "allowed crl"
    and videos: "imp_fetchChannelVideos d cid = Inr cv"
    and analysis: "imp_analyzeTopics d (cv_videos cv) = Inr ta"
    and news: "imp_fetchRelevantNews d (topics ta) = Inl err"
    and reddit: "imp_searchRedditPosts d (topics ta) = Inr posts" "posts \<noteq> []"
  shows "run_invoked (POST d lims request) =
           [GetChannelIdFromUrl url, FetchChannelVideos cid, AnalyzeTopics (cv_videos cv),
            FetchRelevantNews (topics ta), SearchRedditPosts (topics ta),
            GenerateVideoIdeas (cv_videos cv) (topics ta) [] posts]
       \<and> (\<forall>ns. NewsEvent ns \<notin> set (emitted (POST d lims request)))
       \<and> (\<forall>ideas. imp_generateVideoIdeas d (cv_videos cv) (topics ta) [] posts = Inr ideas \<longrightarrow>
             emitted (POST d lims request) =
               [Status ''Fetching channel videos...'',
                VideosEvent (cv_videos cv) (cv_channelName cv),
                Status ''Analyzing topics...'', TopicsEvent ta,
                Status ''Fetching news and Reddit discussions...'', RedditEvent posts,
                Status ''Generating video ideas...'', IdeasEvent ideas, Complete])"
  using assms
  by (cases "imp_generateVideoIdeas d (cv_videos cv) (topics ta) [] posts")
     (simp_all add: handler_defs fulfilled_or_empty_def)

theorem news_failure_is_isolated_witness:
  "check Map.empty (getClientIdentifier sample_request) PER_IP_maxRequests PER_IP_windowSeconds
      (now_ip sample_adapters)
     = (\<lparr>allowed = True, remaining = 9, reset_at = 61000\<rparr>,
        [''203.0.113.7'' \<mapsto> \<lparr>count = 1, resetAt = 61000\<rparr>])
   \<and> json_url sample_request = Inr (Some ''https://www.youtube.com/@sample'')
   \<and> truthy (YOUTUBE_API_KEY sample_adapters) \<and> truthy (OPENAI_API_KEY sample_adapters)
   \<and> imp_getChannelIdFromUrl sample_adapters ''https://www.youtube.com/@sample'' = Inr (Some ''UC1'')
   \<and> imp_fetchRelevantNews sample_adapters (topics sample_topics)
       = Inl (Error ''news provider unreachable'')
   \<and> imp_searchRedditPosts sample_adapters (topics sample_topics) = Inr [sample_post]
   \<and> imp_generateVideoIdeas sample_adapters [sample_video] (topics sample_topics) [] [sample_post]
       = Inr []
   \<and> run_invoked (POST sample_adapters Map.empty sample_request) =
       [GetChannelIdFromUrl ''https://www.youtube.com/@sample'', FetchChannelVideos ''UC1'',
        AnalyzeTopics [sample_video], FetchRelevantNews (topics sample_topics),
        SearchRedditPosts (topics sample_topics),
        GenerateVideoIdeas [sample_video] (topics sample_topics) [] [sample_post]]
   \<and> emitted (POST sample_adapters Map.empty sample_request) =
       [Status ''Fetching channel videos...'', VideosEvent [sample_video] ''Sample'',
        Status ''Analyzing topics...'', TopicsEvent sample_topics,
        Status ''Fetching news and Reddit discussions...'', RedditEvent [sample_post],
        Status ''Generating video ideas...'', IdeasEvent [], Complete]"
proof -
  have ip: "check Map.empty (getClientIdentifier sample_request) PER_IP_maxRequests
              PER_IP_windowSeconds (now_ip sample_adapters)
            = (\<lparr>allowed = True, remaining = 9, reset_at = 61000\<rparr>,
               [''203.0.113.7'' \<mapsto> \<lparr>count = 1, resetAt = 61000\<rparr>])"
    by (simp add: sample_defs)
  have ch: "check [''203.0.113.7'' \<mapsto> \<lparr>count = 1, resetAt = 61000\<rparr>] (''channel:'' @ ''UC1'')
              PER_CHANNEL_maxRequests PER_CHANNEL_windowSeconds (now_channel sample_adapters)
            = (\<lparr>allowed = True, remaining = 4, reset_at = 301500\<rparr>,
               [''203.0.113.7'' \<mapsto> \<lparr>count = 1, resetAt = 61000\<rparr>,
                ''channel:UC1'' \<mapsto> \<lparr>count = 1, resetAt = 301500\<rparr>])"
    by (simp add: sample_defs)
  have body: "json_url sample_request = Inr (Some ''https://www.youtube.com/@sample'')"
    by (simp add: sample_defs)
  have keys: "truthy (YOUTUBE_API_KEY sample_adapters)" "truthy (OPENAI_API_KEY sample_adapters)"
    by (simp_all add: sample_defs)
  have channel: "imp_getChannelIdFromUrl sample_adapters ''https://www.youtube.com/@sample''
                   = Inr (Some ''UC1'')"
    by (simp add: sample_defs)
  have videos: "imp_fetchChannelVideos sample_adapters ''UC1''
                  = Inr \<lparr>cv_videos = [sample_video], cv_channelName = ''Sample''\<rparr>"
    by (simp add: sample_defs)
  have analysis: "imp_analyzeTopics sample_adapters
                    (cv_videos \<lparr>cv_videos = [sample_video], cv_channelName = ''Sample''\<rparr>)
                  = Inr sample_topics"
    by (simp add: sample_defs)
  have news: "imp_fetchRelevantNews sample_adapters (topics sample_topics)
                = Inl (Error ''news provider unreachable'')"
    by (simp add: sample_defs)
  have reddit: "imp_searchRedditPosts sample_adapters (topics sample_topics) = Inr [sample_post]"
    by (simp add: sample_defs)
  have ideas: "imp_generateVideoIdeas sample_adapters [sample_video] (topics sample_topics) []
                 [sample_post] = Inr []"
    by (simp add: sample_defs)
  from news_failure_is_isolated [OF ip _ body _ keys channel _ ch _ videos analysis news reddit]
       ip body keys channel news reddit ideas
  show ?thesis by simp
qed

text \<open>
  Idea generation is the last stage and is not isolated: when it rejects, the same run ends
  with an error event in the place of the ideas and \<^verbatim>\<open>complete\<close> events.
\<close>

lemma failing_idea_generation_is_fatal:
  "emitted (POST sample_adapters_ideas_fail Map.empty sample_request) =
       [Status ''Fetching channel videos...'', VideosEvent [sample_video] ''Sample'',
        Status ''Analyzing topics...'', TopicsEvent sample_topics,
        Status ''Fetching news and Reddit discussions...'', RedditEvent [sample_post],
        Status ''Generating video ideas...'', ErrorEvent ''completion failed'' None]"
  by (rule sample_run_ideas_fail)

subsection \<open>Which stages are skipped when empty\<close>

lemma news_event_nonempty:
  "NewsEvent ns \<in> set (emitted (POST d lims request)) \<Longrightarrow> ns \<noteq> []"
  by (cases rule: POST_cases[of d lims request])
     (auto simp: partial_news_def partial_reddit_def split: if_splits)

lemma reddit_event_nonempty:
  "RedditEvent ps \<in> set (emitted (POST d lims request)) \<Longrightarrow> ps \<noteq> []"
  by (cases rule: POST_cases[of d lims request])
     (auto simp: partial_news_def partial_reddit_def split: if_splits)

lemma news_event_iff:
  "FetchRelevantNews tps \<in> set (run_invoked (POST d lims request)) \<Longrightarrow>
   (NewsEvent ns \<in> set (emitted (POST d lims request)))
     = (ns \<noteq> [] \<and> fulfilled_or_empty (imp_fetchRelevantNews d tps) = ns)"
  by (cases rule: POST_cases[of d lims request])
     (auto simp: partial_news_def partial_reddit_def split: if_splits)

lemma reddit_event_iff:
  "SearchRedditPosts tps \<in> set (run_invoked (POST d lims request)) \<Longrightarrow>
   (RedditEvent ps \<in> set (emitted (POST d lims request)))
     = (ps \<noteq> [] \<and> fulfilled_or_empty (imp_searchRedditPosts d tps) = ps)"
  by (cases rule: POST_cases[of d lims request])
     (auto simp: partial_news_def partial_reddit_def split: if_splits)

lemma ideas_event_always:
  "GenerateVideoIdeas vs tps ns ps \<in> set (run_invoked (POST d lims request)) \<Longrightarrow>
   imp_generateVideoIdeas d vs tps ns ps = Inr ideas \<Longrightarrow>
   IdeasEvent ideas \<in> set (emitted (POST d lims request))"
  by (cases rule: POST_cases[of d lims request]) auto

lemma topics_event_always:
  "AnalyzeTopics vs \<in> set (run_invoked (POST d lims request)) \<Longrightarrow>
   imp_analyzeTopics d vs = Inr ta \<Longrightarrow>
   TopicsEvent ta \<in> set (emitted (POST d lims request))"
  by (cases rule: POST_cases[of d lims request]) auto

lemma videos_event_always:
  "FetchChannelVideos cid \<in> set (run_invoked (POST d lims request)) \<Longrightarrow>
   imp_fetchChannelVideos d cid = Inr cv \<Longrightarrow>
   VideosEvent (cv_videos cv) (cv_channelName cv) \<in> set (emitted (POST d lims request))"
  by (cases rule: POST_cases[of d lims request]) auto

text \<open>
  Claim C3, as the code has it. Only the news and the forum stage are guarded: their event
  is written exactly when the list the stage contributes (the fulfilled value, or the empty
  list standing in for a rejection) is non-empty, and carries that list; with an empty list
  no event of that stage is written. The videos, topics and ideas events are written
  whenever the stage returns, whatever the payload, an empty list included.
\<close>

theorem partial_events_policy:
  "(\<forall>ns. NewsEvent ns \<in> set (emitted (POST d lims request)) \<longrightarrow> ns \<noteq> [])
   \<and> (\<forall>ps. RedditEvent ps \<in> set (emitted (POST d lims request)) \<longrightarrow> ps \<noteq> [])
   \<and> (\<forall>tps ns. FetchRelevantNews tps \<in> set (run_invoked (POST d lims request)) \<longrightarrow>
         (NewsEvent ns \<in> set (emitted (POST d lims request)))
           = (ns \<noteq> [] \<and> fulfilled_or_empty (imp_fetchRelevantNews d tps) = ns))
   \<and> (\<forall>tps ps. SearchRedditPosts tps \<in> set (run_invoked (POST d lims request)) \<longrightarrow>
         (RedditEvent ps \<in> set (emitted (POST d lims request)))
           = (ps \<noteq> [] \<and> fulfilled_or_empty (imp_searchRedditPosts d tps) = ps))
   \<and> (\<forall>cid cv. FetchChannelVideos cid \<in> set (run_invoked (POST d lims request))
         \<and> imp_fetchChannelVideos d cid = Inr cv \<longrightarrow>
         VideosEvent (cv_videos cv) (cv_channelName cv) \<in> set (emitted (POST d lims request)))
   \<and> (\<forall>vs ta. AnalyzeTopics vs \<in> set (run_invoked (POST d lims request))
         \<and> imp_analyzeTopics d vs = Inr ta \<longrightarrow>
         TopicsEvent ta \<in> set (emitted (POST d lims request)))
   \<and> (\<forall>vs tps ns ps ideas.
         GenerateVideoIdeas vs tps ns ps \<in> set (run_invoked (POST d lims request))
         \<and> imp_generateVideoIdeas d vs tps ns ps = Inr ideas \<longrightarrow>
         IdeasEvent ideas \<in> set (emitted (POST d lims request)))"
proof (intro conjI allI impI)
  fix ns assume "NewsEvent ns \<in> set (emitted (POST d lims request))"
  then show "ns \<noteq> []" by (rule news_event_nonempty)
next
  fix ps assume "RedditEvent ps \<in> set (emitted (POST d lims request))"
  then show "ps \<noteq> []" by (rule reddit_event_nonempty)
next
  fix tps ns assume "FetchRelevantNews tps \<in> set (run_invoked (POST d lims request))"
  then show "(NewsEvent ns \<in> set (emitted (POST d lims request)))
           = (ns \<noteq> [] \<and> fulfilled_or_empty (imp_fetchRelevantNews d tps) = ns)"
    by (rule news_event_iff)
next
  fix tps ps assume "SearchRedditPosts tps \<in> set (run_invoked (POST d lims request))"
  then show "(RedditEvent ps \<in> set (emitted (POST d lims request)))
           = (ps \<noteq> [] \<and> fulfilled_or_empty (imp_searchRedditPosts d tps) = ps)"
    by (rule reddit_event_iff)
next
  fix cid cv
  assume "FetchChannelVideos cid \<in> set (run_invoked (POST d lims request))
          \<and> imp_fetchChannelVideos d cid = Inr cv"
  then show "VideosEvent (cv_videos cv) (cv_channelName cv) \<in> set (emitted (POST d lims request))"
    using videos_event_always by blast
next
  fix vs ta
  assume "AnalyzeTopics vs \<in> set (run_invoked (POST d lims request))
          \<and> imp_analyzeTopics d vs = Inr ta"
  then show "TopicsEvent ta \<in> set (emitted (POST d lims request))"
    using topics_event_always by blast
next
  fix vs tps ns ps ideas
  assume "GenerateVideoIdeas vs tps ns ps \<in> set (run_invoked (POST d lims request))
          \<and> imp_generateVideoIdeas d vs tps ns ps = Inr ideas"
  then show "IdeasEvent ideas \<in> set (emitted (POST d lims request))"
    using ideas_event_always by blast
qed

theorem partial_events_policy_witness:
  "NewsEvent [sample_article] \<in> set (emitted (POST sample_adapters_with_news Map.empty sample_request))
   \<and> [sample_article] \<noteq> []
   \<and> RedditEvent [sample_post] \<in> set (emitted (POST sample_adapters Map.empty sample_request))
   \<and> [sample_post] \<noteq> []
   \<and> FetchRelevantNews (topics sample_topics)
        \<in> set (run_invoked (POST sample_adapters Map.empty sample_request))
   \<and> fulfilled_or_empty (imp_fetchRelevantNews sample_adapters (topics sample_topics)) = []
   \<and> (\<forall>ns. NewsEvent ns \<notin> set (emitted (POST sample_adapters Map.empty sample_request)))
   \<and> SearchRedditPosts (topics sample_topics)
        \<in> set (run_invoked (POST sample_adapters Map.empty sample_request))
   \<and> GenerateVideoIdeas [sample_video] (topics sample_topics) [] [sample_post]
        \<in> set (run_invoked (POST sample_adapters Map.empty sample_request))
   \<and> imp_generateVideoIdeas sample_adapters [sample_video] (topics sample_topics) [] [sample_post]
        = Inr []
   \<and> IdeasEvent [] \<in> set (emitted (POST sample_adapters Map.empty sample_request))"
proof -
  have a: "FetchRelevantNews (topics sample_topics)
        \<in> set (run_invoked (POST sample_adapters Map.empty sample_request))"
    and b: "SearchRedditPosts (topics sample_topics)
        \<in> set (run_invoked (POST sample_adapters Map.empty sample_request))"
    and c: "GenerateVideoIdeas [sample_video] (topics sample_topics) [] [sample_post]
        \<in> set (run_invoked (POST sample_adapters Map.empty sample_request))"
    by (simp_all add: sample_run_invoked)
  have n: "fulfilled_or_empty (imp_fetchRelevantNews sample_adapters (topics sample_topics)) = []"
    and i: "imp_generateVideoIdeas sample_adapters [sample_video] (topics sample_topics) []
              [sample_post] = Inr []"
    by (simp_all add: sample_defs)
  have w: "NewsEvent [sample_article]
             \<in> set (emitted (POST sample_adapters_with_news Map.empty sample_request))"
    by (simp add: sample_run_with_news)
  have r: "RedditEvent [sample_post] \<in> set (emitted (POST sample_adapters Map.empty sample_request))"
    by (simp add: sample_run)
  note third = partial_events_policy [of sample_adapters Map.empty sample_request,
      THEN conjunct2, THEN conjunct2, THEN conjunct1, rule_format, OF a]
  have none: "\<forall>ns. NewsEvent ns \<notin> set (emitted (POST sample_adapters Map.empty sample_request))"
  proof
    fix ns
    show "NewsEvent ns \<notin> set (emitted (POST sample_adapters Map.empty sample_request))"
      using third [of ns] n by auto
  qed
  note last = partial_events_policy [of sample_adapters Map.empty sample_request,
      THEN conjunct2, THEN conjunct2, THEN conjunct2, THEN conjunct2, THEN conjunct2,
      THEN conjunct2, rule_format]
  have ideas: "IdeasEvent [] \<in> set (emitted (POST sample_adapters Map.empty sample_request))"
    using last [of "[sample_video]" "topics sample_topics" "[]" "[sample_post]" "[]"] c i
    by simp
  from a b c n i w r none ideas show ?thesis by (intro conjI) simp_all
qed

text \<open>
  Claim C3 as stated fails for the ideas stage: idea generation returns the empty list and
  the ideas event is written all the same.
\<close>

theorem partial_events_policy_counterexample:
  "imp_generateVideoIdeas sample_adapters [sample_video] (topics sample_topics) [] [sample_post]
     = Inr []
   \<and> IdeasEvent [] \<in> set (emitted (POST sample_adapters Map.empty sample_request))"
  by (simp add: sample_run) (simp add: sample_defs)

section \<open>Properties of the token cache\<close>

lemma exchange_token_requests:
  "requests (snd (exchange_token e w))
     = requests w @ [TokenExchange (interpolate (REDDIT_CLIENT_ID e))
                       (interpolate (REDDIT_CLIENT_SECRET e)) (user_agent e)]"
  by (simp add: exchange_token_def Let_def issue_def now_def setCached_def split: sum.splits)

lemma exchange_token_failure:
  "token_endpoint e (length (requests w))
      (TokenExchange (interpolate (REDDIT_CLIENT_ID e)) (interpolate (REDDIT_CLIENT_SECRET e))
         (user_agent e)) = Inl err
   \<Longrightarrow> fst (exchange_token e w) = None \<and> token_store (snd (exchange_token e w)) = token_store w"
  by (simp add: exchange_token_def Let_def issue_def)

lemma exchange_token_success:
  "token_endpoint e (length (requests w))
      (TokenExchange (interpolate (REDDIT_CLIENT_ID e)) (interpolate (REDDIT_CLIENT_SECRET e))
         (user_agent e)) = Inr resp
   \<Longrightarrow> fst (exchange_token e w) = Some (access_token resp)
     \<and> token_store (snd (exchange_token e w)) token_key
         = Some \<lparr>data = \<lparr>token = access_token resp,
                          token_expiresAt = Date_now e (reads w) + expires_in resp * 1000\<rparr>,
                 expiresAt = Date_now e (Suc (reads w)) + (expires_in resp - 60) * 1000\<rparr>"
  by (simp add: exchange_token_def Let_def issue_def now_def setCached_def cache_set_def)

text \<open>
  What a call finds in the cache: the record under the token key if there is one and the
  clock reading taken by \<^verbatim>\<open>get\<close> is not past the entry's expiry; and whether that record
  is still good for more than 60 seconds at the next clock reading.
\<close>

lemma getRedditAccessToken_cached:
  assumes "truthy (REDDIT_CLIENT_ID e)" "truthy (REDDIT_CLIENT_SECRET e)"
    and "token_store w token_key = Some entry"
    and "\<not> Date_now e (reads w) > expiresAt entry"
    and "token_expiresAt (data entry) > Date_now e (Suc (reads w)) + 60000"
  shows "getRedditAccessToken e w
           = (Inr (Some (token (data entry))), w\<lparr>reads := Suc (Suc (reads w))\<rparr>)"
  using assms
  by (simp add: getRedditAccessToken_def getCached_def cache_get_def now_def Let_def)

lemma getRedditAccessToken_refresh:
  assumes creds: "truthy (REDDIT_CLIENT_ID e)" "truthy (REDDIT_CLIENT_SECRET e)"
    and stale: "token_store w token_key = None
         \<or> (\<exists>entry. token_store w token_key = Some entry
               \<and> (Date_now e (reads w) > expiresAt entry
                    \<or> token_expiresAt (data entry) \<le> Date_now e (Suc (reads w)) + 60000))"
  obtains w1 where "requests w1 = requests w"
    and "getRedditAccessToken e w = (Inr (fst (exchange_token e w1)), snd (exchange_token e w1))"
proof -
  consider (absent) "token_store w token_key = None"
    | (evicted) entry where "token_store w token_key = Some entry"
        "Date_now e (reads w) > expiresAt entry"
    | (expiring) entry where "token_store w token_key = Some entry"
        "\<not> Date_now e (reads w) > expiresAt entry"
        "token_expiresAt (data entry) \<le> Date_now e (Suc (reads w)) + 60000"
    using stale by fastforce
  then show thesis
  proof cases
    case absent
    have "getRedditAccessToken e w = (Inr (fst (exchange_token e w)), snd (exchange_token e w))"
      using creds absent
      by (simp add: getRedditAccessToken_def getCached_def Let_def split_beta)
    then show thesis using that[of w] by simp
  next
    case evicted
    let ?w1 = "w\<lparr>reads := Suc (reads w), token_store := (token_store w)(token_key := None)\<rparr>"
    have "getRedditAccessToken e w = (Inr (fst (exchange_token e ?w1)), snd (exchange_token e ?w1))"
      using creds evicted
      by (simp add: getRedditAccessToken_def getCached_def cache_get_def now_def Let_def
          split_beta)
    then show thesis using that[of ?w1] by simp
  next
    case expiring
    let ?w1 = "w\<lparr>reads := Suc (Suc (reads w))\<rparr>"
    have "getRedditAccessToken e w = (Inr (fst (exchange_token e ?w1)), snd (exchange_token e ?w1))"
      using creds expiring
      by (simp add: getRedditAccessToken_def getCached_def cache_get_def now_def Let_def
          split_beta)
    then show thesis using that[of ?w1] by simp
  qed
qed

text \<open>
  Claim C7. The function is called with the client credentials configured (the forum search
  takes the authenticated path only then). In that case: (1) a cached record whose own
  expiry is more than 60 seconds after the clock reading is returned unchanged, without any
  request; (2) when no record is cached (none stored, or the stored one evicted) or the
  record is within 60 seconds of its expiry, exactly one credential exchange is attempted;
  if it succeeds, the new token is returned and the record stored under the token key
  carries the new token, expires at a clock reading plus the declared lifetime, and is
  cached for the declared lifetime minus 60 seconds; if it fails, the result is absent.
  (3) The function never throws. (4) Called without credentials all the same, it answers
  absent at once, touching neither the cache nor the provider.
\<close>

theorem token_cache_behaviour:
  "(truthy (REDDIT_CLIENT_ID e) \<and> truthy (REDDIT_CLIENT_SECRET e)
      \<and> token_store w token_key = Some entry
      \<and> \<not> Date_now e (reads w) > expiresAt entry
      \<and> token_expiresAt (data entry) > Date_now e (Suc (reads w)) + 60000
    \<longrightarrow> fst (getRedditAccessToken e w) = Inr (Some (token (data entry)))
        \<and> requests (snd (getRedditAccessToken e w)) = requests w
        \<and> token_store (snd (getRedditAccessToken e w)) = token_store w)
   \<and> (truthy (REDDIT_CLIENT_ID e) \<and> truthy (REDDIT_CLIENT_SECRET e)
      \<and> (token_store w token_key = None
           \<or> (\<exists>entry. token_store w token_key = Some entry
                 \<and> (Date_now e (reads w) > expiresAt entry
                      \<or> token_expiresAt (data entry) \<le> Date_now e (Suc (reads w)) + 60000)))
    \<longrightarrow> requests (snd (getRedditAccessToken e w))
          = requests w @ [TokenExchange (interpolate (REDDIT_CLIENT_ID e))
                            (interpolate (REDDIT_CLIENT_SECRET e)) (user_agent e)]
        \<and> length (filter is_exchange (requests (snd (getRedditAccessToken e w))))
            = Suc (length (filter is_exchange (requests w)))
        \<and> (\<forall>resp. token_endpoint e (length (requests w))
                     (TokenExchange (interpolate (REDDIT_CLIENT_ID e))
                        (interpolate (REDDIT_CLIENT_SECRET e)) (user_agent e)) = Inr resp
             \<longrightarrow> fst (getRedditAccessToken e w) = Inr (Some (access_token resp))
               \<and> (\<exists>i. token_store (snd (getRedditAccessToken e w)) token_key
                     = Some \<lparr>data = \<lparr>token = access_token resp,
                                      token_expiresAt = Date_now e i + expires_in resp * 1000\<rparr>,
                             expiresAt = Date_now e (Suc i) + (expires_in resp - 60) * 1000\<rparr>))
        \<and> (\<forall>err. token_endpoint e (length (requests w))
                     (TokenExchange (interpolate (REDDIT_CLIENT_ID e))
                        (interpolate (REDDIT_CLIENT_SECRET e)) (user_agent e)) = Inl err
             \<longrightarrow> fst (getRedditAccessToken e w) = Inr None))
   \<and> (\<exists>r. fst (getRedditAccessToken e w) = Inr r)
   \<and> (\<not> (truthy (REDDIT_CLIENT_ID e) \<and> truthy (REDDIT_CLIENT_SECRET e))
    \<longrightarrow> getRedditAccessToken e w = (Inr None, w))"
proof (intro conjI impI)
  assume a: "truthy (REDDIT_CLIENT_ID e) \<and> truthy (REDDIT_CLIENT_SECRET e)
      \<and> token_store w token_key = Some entry
      \<and> \<not> Date_now e (reads w) > expiresAt entry
      \<and> token_expiresAt (data entry) > Date_now e (Suc (reads w)) + 60000"
  then have g: "getRedditAccessToken e w
           = (Inr (Some (token (data entry))), w\<lparr>reads := Suc (Suc (reads w))\<rparr>)"
    by (intro getRedditAccessToken_cached) simp_all
  show "fst (getRedditAccessToken e w) = Inr (Some (token (data entry)))"
    and "requests (snd (getRedditAccessToken e w)) = requests w"
    and "token_store (snd (getRedditAccessToken e w)) = token_store w"
    by (simp_all add: g)
next
  let ?req = "TokenExchange (interpolate (REDDIT_CLIENT_ID e))
                (interpolate (REDDIT_CLIENT_SECRET e)) (user_agent e)"
  assume a: "truthy (REDDIT_CLIENT_ID e) \<and> truthy (REDDIT_CLIENT_SECRET e)
      \<and> (token_store w token_key = None
           \<or> (\<exists>entry. token_store w token_key = Some entry
                 \<and> (Date_now e (reads w) > expiresAt entry
                      \<or> token_expiresAt (data entry) \<le> Date_now e (Suc (reads w)) + 60000)))"
  then obtain w1 where w1: "requests w1 = requests w"
    and g: "getRedditAccessToken e w = (Inr (fst (exchange_token e w1)), snd (exchange_token e w1))"
    using getRedditAccessToken_refresh[of e w] by blast
  show rq: "requests (snd (getRedditAccessToken e w)) = requests w @ [?req]"
    by (simp add: g exchange_token_requests w1)
  show "length (filter is_exchange (requests (snd (getRedditAccessToken e w))))
            = Suc (length (filter is_exchange (requests w)))"
    by (simp add: rq)
  show "\<forall>resp. token_endpoint e (length (requests w)) ?req = Inr resp
             \<longrightarrow> fst (getRedditAccessToken e w) = Inr (Some (access_token resp))
               \<and> (\<exists>i. token_store (snd (getRedditAccessToken e w)) token_key
                     = Some \<lparr>data = \<lparr>token = access_token resp,
                                      token_expiresAt = Date_now e i + expires_in resp * 1000\<rparr>,
                             expiresAt = Date_now e (Suc i) + (expires_in resp - 60) * 1000\<rparr>)"
  proof (intro allI impI)
    fix resp assume "token_endpoint e (length (requests w)) ?req = Inr resp"
    then have "token_endpoint e (length (requests w1)) ?req = Inr resp" by (simp add: w1)
    from exchange_token_success[OF this]
    show "fst (getRedditAccessToken e w) = Inr (Some (access_token resp))
               \<and> (\<exists>i. token_store (snd (getRedditAccessToken e w)) token_key
                     = Some \<lparr>data = \<lparr>token = access_token resp,
                                      token_expiresAt = Date_now e i + expires_in resp * 1000\<rparr>,
                             expiresAt = Date_now e (Suc i) + (expires_in resp - 60) * 1000\<rparr>)"
      by (auto simp add: g)
  qed
  show "\<forall>err. token_endpoint e (length (requests w)) ?req = Inl err
             \<longrightarrow> fst (getRedditAccessToken e w) = Inr None"
  proof (intro allI impI)
    fix err assume "token_endpoint e (length (requests w)) ?req = Inl err"
    then have "token_endpoint e (length (requests w1)) ?req = Inl err" by (simp add: w1)
    from exchange_token_failure[OF this]
    show "fst (getRedditAccessToken e w) = Inr None" by (simp add: g)
  qed
next
  show "\<exists>r. fst (getRedditAccessToken e w) = Inr r"
    by (simp add: getRedditAccessToken_def Let_def split_beta split: option.splits)
next
  assume "\<not> (truthy (REDDIT_CLIENT_ID e) \<and> truthy (REDDIT_CLIENT_SECRET e))"
  then show "getRedditAccessToken e w = (Inr None, w)"
    by (auto simp add: getRedditAccessToken_def)
qed

lemmas token_defs = getRedditAccessToken_def exchange_token_def getCached_def setCached_def
  cache_get_def cache_set_def now_def issue_def user_agent_def Let_def

lemmas sample_env_defs = sample_env_def sample_env_no_client_id_def sample_env_nothing_found_def
  sample_world_def sample_world_with_token_def sample_world_token_expiring_def sample_child_def

theorem token_cache_behaviour_witness:
  "truthy (REDDIT_CLIENT_ID sample_env) \<and> truthy (REDDIT_CLIENT_SECRET sample_env)
   \<and> token_store sample_world_with_token token_key
       = Some \<lparr>data = \<lparr>token = ''old'', token_expiresAt = 5000000\<rparr>, expiresAt = 4940000\<rparr>
   \<and> \<not> Date_now sample_env (reads sample_world_with_token) > 4940000
   \<and> 5000000 > Date_now sample_env (Suc (reads sample_world_with_token)) + 60000
   \<and> fst (getRedditAccessToken sample_env sample_world_with_token) = Inr (Some ''old'')
   \<and> requests (snd (getRedditAccessToken sample_env sample_world_with_token)) = []
   \<and> token_store sample_world token_key = None
   \<and> requests (snd (getRedditAccessToken sample_env sample_world))
       = [TokenExchange ''id'' ''secret'' ''TubeAI/1.0 by /u/yourusername'']
   \<and> fst (getRedditAccessToken sample_env sample_world) = Inr (Some ''tok'')
   \<and> token_store (snd (getRedditAccessToken sample_env sample_world)) token_key
       = Some \<lparr>data = \<lparr>token = ''tok'', token_expiresAt = 1000000 + 3600 * 1000\<rparr>,
               expiresAt = 1000001 + (3600 - 60) * 1000\<rparr>
   \<and> fst (getRedditAccessToken (sample_env\<lparr>token_endpoint := (\<lambda>i r. Inl (Error ''401''))\<rparr>)
            sample_world_token_expiring) = Inr None
   \<and> getRedditAccessToken sample_env_no_client_id sample_world = (Inr None, sample_world)"
proof -
  let ?entry = "\<lparr>data = \<lparr>token = ''old'', token_expiresAt = 5000000\<rparr>, expiresAt = 4940000\<rparr>"
  let ?failing = "sample_env\<lparr>token_endpoint := (\<lambda>i r. Inl (Error ''401''))\<rparr>"
  have creds: "truthy (REDDIT_CLIENT_ID sample_env) \<and> truthy (REDDIT_CLIENT_SECRET sample_env)"
    by (simp add: sample_env_defs)
  have stored: "token_store sample_world_with_token token_key = Some ?entry"
    by (simp add: sample_env_defs)
  have fresh: "\<not> Date_now sample_env (reads sample_world_with_token) > expiresAt ?entry"
    "token_expiresAt (data ?entry) > Date_now sample_env (Suc (reads sample_world_with_token)) + 60000"
    by (simp_all add: sample_env_defs)
  have absent: "token_store sample_world token_key = None"
    by (simp add: sample_env_defs)
  have granted: "token_endpoint sample_env (length (requests sample_world))
      (TokenExchange (interpolate (REDDIT_CLIENT_ID sample_env))
         (interpolate (REDDIT_CLIENT_SECRET sample_env)) (user_agent sample_env))
      = Inr \<lparr>access_token = ''tok'', token_type = ''bearer'', expires_in = 3600, scope = ''*''\<rparr>"
    by (simp add: sample_env_defs)
  have expiring: "truthy (REDDIT_CLIENT_ID ?failing) \<and> truthy (REDDIT_CLIENT_SECRET ?failing)
      \<and> (token_store sample_world_token_expiring token_key = None
         \<or> (\<exists>entry. token_store sample_world_token_expiring token_key = Some entry
               \<and> (Date_now ?failing (reads sample_world_token_expiring) > expiresAt entry
                    \<or> token_expiresAt (data entry)
                         \<le> Date_now ?failing (Suc (reads sample_world_token_expiring)) + 60000)))"
    by (simp add: sample_env_defs)
  have refused: "token_endpoint ?failing (length (requests sample_world_token_expiring))
      (TokenExchange (interpolate (REDDIT_CLIENT_ID ?failing))
         (interpolate (REDDIT_CLIENT_SECRET ?failing)) (user_agent ?failing))
      = Inl (Error ''401'')"
    by (simp add: sample_env_defs)
  have nocreds: "\<not> (truthy (REDDIT_CLIENT_ID sample_env_no_client_id)
                   \<and> truthy (REDDIT_CLIENT_SECRET sample_env_no_client_id))"
    by (simp add: sample_env_defs)
  note t1 = token_cache_behaviour [of sample_env sample_world_with_token ?entry, THEN conjunct1,
      rule_format]
  note t2 = token_cache_behaviour [of sample_env sample_world ?entry, THEN conjunct2,
      THEN conjunct1, rule_format]
  note t3 = token_cache_behaviour [of ?failing sample_world_token_expiring ?entry, THEN conjunct2,
      THEN conjunct1, rule_format, OF expiring]
  note t4 = token_cache_behaviour [of sample_env_no_client_id sample_world ?entry,
      THEN conjunct2, THEN conjunct2, THEN conjunct2, rule_format, OF nocreds]
  have c1: "fst (getRedditAccessToken sample_env sample_world_with_token) = Inr (Some ''old'')"
    "requests (snd (getRedditAccessToken sample_env sample_world_with_token)) = []"
    using t1 creds stored fresh by (simp_all add: sample_env_defs)
  have h2: "truthy (REDDIT_CLIENT_ID sample_env) \<and> truthy (REDDIT_CLIENT_SECRET sample_env)
      \<and> (token_store sample_world token_key = None
         \<or> (\<exists>entry. token_store sample_world token_key = Some entry
               \<and> (Date_now sample_env (reads sample_world) > expiresAt entry
                    \<or> token_expiresAt (data entry)
                         \<le> Date_now sample_env (Suc (reads sample_world)) + 60000)))"
    using creds absent by simp
  have c2: "requests (snd (getRedditAccessToken sample_env sample_world))
       = [TokenExchange ''id'' ''secret'' ''TubeAI/1.0 by /u/yourusername'']"
    using t2 [OF h2] by (simp add: sample_env_defs user_agent_def)
  have c3: "fst (getRedditAccessToken sample_env sample_world) = Inr (Some ''tok'')"
    using t2 [OF h2] granted by simp
  have c4: "token_store (snd (getRedditAccessToken sample_env sample_world)) token_key
       = Some \<lparr>data = \<lparr>token = ''tok'', token_expiresAt = 1000000 + 3600 * 1000\<rparr>,
               expiresAt = 1000001 + (3600 - 60) * 1000\<rparr>"
    by (simp add: token_defs sample_env_defs)
  have c5: "fst (getRedditAccessToken ?failing sample_world_token_expiring) = Inr None"
    using t3 refused by blast
  from creds stored fresh c1 absent c2 c3 c4 c5 t4 show ?thesis
    by (intro conjI) simp_all
qed

text \<open>
  The guard on the credentials comes before the cache lookup: without the client id, even a
  cached token good for another hour is not handed out.
\<close>

lemma token_needs_credentials:
  "token_store sample_world_with_token token_key
     = Some \<lparr>data = \<lparr>token = ''old'', token_expiresAt = 5000000\<rparr>, expiresAt = 4940000\<rparr>
   \<and> Date_now sample_env_no_client_id 0 + 60000 < 5000000
   \<and> fst (getRedditAccessToken sample_env_no_client_id sample_world_with_token) = Inr None
   \<and> requests (snd (getRedditAccessToken sample_env_no_client_id sample_world_with_token)) = []"
  by (simp add: token_defs sample_env_defs)

section \<open>Properties of the forum search\<close>

subsection \<open>No search ever throws\<close>

lemma getRedditAccessToken_returns: "\<exists>r. fst (getRedditAccessToken e w) = Inr r"
  by (simp add: getRedditAccessToken_def Let_def split_beta split: option.splits)

lemma searchRedditWithOAuth_returns: "\<exists>ps. fst (searchRedditWithOAuth e w topic) = Inr ps"
proof -
  obtain r w1 where g: "getRedditAccessToken e w = (Inr r, w1)"
    using getRedditAccessToken_returns[of e w] by (cases "getRedditAccessToken e w") auto
  show ?thesis
    by (simp add: searchRedditWithOAuth_def g Let_def
        split: sum.splits listing.splits prod.splits)
qed

lemma searchRedditPublic_returns: "\<exists>ps. fst (searchRedditPublic e w topic) = Inr ps"
  by (simp add: searchRedditPublic_def Let_def split: sum.splits listing.splits prod.splits)

lemma search_topic_returns: "\<exists>ps. fst (search_topic e hasOAuth w topic) = Inr ps"
proof (cases hasOAuth)
  case False
  then show ?thesis by (simp add: search_topic_def searchRedditPublic_returns)
next
  case True
  obtain ps w1 where o: "searchRedditWithOAuth e w topic = (Inr ps, w1)"
    using searchRedditWithOAuth_returns[of e w topic]
    by (cases "searchRedditWithOAuth e w topic") auto
  show ?thesis using True by (simp add: search_topic_def o searchRedditPublic_returns)
qed

lemma search_loop_returns: "\<exists>ps. fst (search_loop e hasOAuth tps allPosts w) = Inr ps"
proof (induction tps arbitrary: allPosts w)
  case Nil
  then show ?case by simp
next
  case (Cons topic rest)
  obtain ps w1 where s: "search_topic e hasOAuth w topic = (Inr ps, w1)"
    using search_topic_returns[of e hasOAuth w topic]
    by (cases "search_topic e hasOAuth w topic") auto
  show ?case using Cons.IH by (simp add: s)
qed

lemma searchRedditPosts_shape:
  "\<exists>pool. fst (searchRedditPosts e w tps) = Inr (sortedPosts (uniquePosts pool))"
proof (cases "length tps = 0")
  case True
  then have "fst (searchRedditPosts e w tps) = Inr (sortedPosts (uniquePosts []))"
    by (simp add: searchRedditPosts_def sortedPosts_def uniquePosts_def)
  then show ?thesis by blast
next
  case False
  let ?h = "truthy (REDDIT_CLIENT_ID e) \<and> truthy (REDDIT_CLIENT_SECRET e)"
  obtain pool w1 where l: "search_loop e ?h (take 3 tps) [] w = (Inr pool, w1)"
    using search_loop_returns[of e ?h "take 3 tps" "[]" w]
    by (cases "search_loop e ?h (take 3 tps) [] w") auto
  have "fst (searchRedditPosts e w tps) = Inr (sortedPosts (uniquePosts pool))"
    using False by (simp add: searchRedditPosts_def l)
  then show ?thesis by blast
qed

subsection \<open>Which requests a search issues\<close>

lemma post_of_child_requests: "requests (snd (post_of_child e w c)) = requests w"
  by (simp add: post_of_child_def now_def Let_def split_beta
      split: child.splits option.splits)

lemma posts_of_children_requests: "requests (snd (posts_of_children e w cs)) = requests w"
proof (induction cs arbitrary: w)
  case Nil
  then show ?case by simp
next
  case (Cons c cs)
  obtain r w1 where p: "post_of_child e w c = (r, w1)" by (cases "post_of_child e w c")
  have w1: "requests w1 = requests w" using post_of_child_requests[of e w c] by (simp add: p)
  obtain r2 w2 where q: "posts_of_children e w1 cs = (r2, w2)"
    by (cases "posts_of_children e w1 cs")
  have w2: "requests w2 = requests w1" using Cons.IH[of w1] by (simp add: q)
  show ?case by (simp add: p q w1 w2 split: sum.splits)
qed

lemma searchRedditPublic_requests:
  "requests (snd (searchRedditPublic e w topic)) = requests w @ [PublicSearch topic]"
proof -
  have "\<And>cs. requests (snd (posts_of_children e (issue w (PublicSearch topic)) cs))
          = requests w @ [PublicSearch topic]"
    by (simp add: posts_of_children_requests issue_def)
  then show ?thesis
    by (simp add: searchRedditPublic_def Let_def issue_def
        split: sum.splits listing.splits prod.splits)
       (metis snd_conv)
qed

lemma search_loop_public_only:
  "requests (snd (search_loop e False tps allPosts w)) = requests w @ map PublicSearch tps"
proof (induction tps arbitrary: allPosts w)
  case Nil
  then show ?case by simp
next
  case (Cons topic rest)
  obtain ps w1 where s: "searchRedditPublic e w topic = (Inr ps, w1)"
    using searchRedditPublic_returns[of e w topic]
    by (cases "searchRedditPublic e w topic") auto
  have w1: "requests w1 = requests w @ [PublicSearch topic]"
    using searchRedditPublic_requests[of e w topic] by (simp add: s)
  show ?case using Cons.IH by (simp add: search_topic_def s w1)
qed

lemma search_loop_nothing_found:
  assumes "\<forall>w t. fst (search_topic e hasOAuth w t) = Inr []"
  shows "fst (search_loop e hasOAuth tps allPosts w) = Inr allPosts"
proof (induction tps arbitrary: w)
  case Nil
  then show ?case by simp
next
  case (Cons topic rest)
  obtain w1 where s: "search_topic e hasOAuth w topic = (Inr [], w1)"
    using assms by (cases "search_topic e hasOAuth w topic") (metis fst_conv)
  show ?case using Cons.IH by (simp add: s)
qed

lemma search_topic_fallback:
  assumes "fst (searchRedditWithOAuth e w topic) = Inr []"
  shows "search_topic e True w topic
           = searchRedditPublic e (snd (searchRedditWithOAuth e w topic)) topic"
  using assms by (cases "searchRedditWithOAuth e w topic") (simp add: search_topic_def)


lemma searchRedditWithOAuth_nothing:
  assumes "oauth_search e (length (requests (snd (getRedditAccessToken e w))))
             (OAuthSearch topic (interpolate (projr (fst (getRedditAccessToken e w)))) (user_agent e))
           \<in> {Inr NoChildren, Inr NonArray, Inr (Children [])} \<union> range Inl"
  shows "fst (searchRedditWithOAuth e w topic) = Inr []"
proof -
  obtain r w1 where g: "getRedditAccessToken e w = (Inr r, w1)"
    using getRedditAccessToken_returns[of e w] by (cases "getRedditAccessToken e w") auto
  show ?thesis using assms
    by (auto simp add: searchRedditWithOAuth_def g Let_def)
qed

lemma searchRedditPublic_nothing:
  assumes "public_search e (length (requests w)) (PublicSearch topic)
           \<in> {Inr NoChildren, Inr NonArray, Inr (Children [])} \<union> range Inl"
  shows "fst (searchRedditPublic e w topic) = Inr []"
  using assms by (auto simp add: searchRedditPublic_def Let_def)

lemma searchRedditPosts_nothing:
  assumes a: "(\<forall>w' t. fst (searchRedditWithOAuth e w' t) = Inr [])
        \<and> (\<forall>w' t. fst (searchRedditPublic e w' t) = Inr [])"
  shows "fst (searchRedditPosts e w tps) = Inr []"
proof -
  let ?h = "truthy (REDDIT_CLIENT_ID e) \<and> truthy (REDDIT_CLIENT_SECRET e)"
  have "\<forall>w' t. fst (search_topic e ?h w' t) = Inr []"
  proof (intro allI)
    fix w' t
    show "fst (search_topic e ?h w' t) = Inr []"
    proof (cases ?h)
      case True
      have "fst (searchRedditWithOAuth e w' t) = Inr []" using a by blast
      then have "search_topic e True w' t
          = searchRedditPublic e (snd (searchRedditWithOAuth e w' t)) t"
        by (rule search_topic_fallback)
      then show ?thesis using True a by simp
    next
      case False
      then have h: "?h = False" by blast
      show ?thesis unfolding h using a by (simp add: search_topic_def)
    qed
  qed
  then have l: "fst (search_loop e ?h (take 3 tps) [] w) = Inr []"
    by (rule search_loop_nothing_found)
  show ?thesis
  proof (cases "length tps = 0")
    case True
    then show ?thesis by (simp add: searchRedditPosts_def)
  next
    case False
    obtain r w1 where s: "search_loop e ?h (take 3 tps) [] w = (r, w1)"
      by (cases "search_loop e ?h (take 3 tps) [] w")
    with l have "r = Inr []" by simp
    then show ?thesis using False
      by (simp add: searchRedditPosts_def s sortedPosts_def uniquePosts_def)
  qed
qed

text \<open>
  The requests an authenticated search adds are never public searches, and the loop only
  ever appends to the log of requests.
\<close>

lemma getRedditAccessToken_adds_no_public:
  "\<exists>xs. requests (snd (getRedditAccessToken e w)) = requests w @ xs
        \<and> filter is_public_search xs = []"
proof (cases "truthy (REDDIT_CLIENT_ID e) \<and> truthy (REDDIT_CLIENT_SECRET e)")
  case False
  then have "getRedditAccessToken e w = (Inr None, w)"
    by (auto simp add: getRedditAccessToken_def)
  then show ?thesis by simp
next
  case creds: True
  show ?thesis
  proof (cases "\<exists>entry. token_store w token_key = Some entry
                  \<and> \<not> Date_now e (reads w) > expiresAt entry
                  \<and> token_expiresAt (data entry) > Date_now e (Suc (reads w)) + 60000")
    case True
    then obtain entry where "token_store w token_key = Some entry"
      "\<not> Date_now e (reads w) > expiresAt entry"
      "token_expiresAt (data entry) > Date_now e (Suc (reads w)) + 60000" by blast
    with creds have "getRedditAccessToken e w
           = (Inr (Some (token (data entry))), w\<lparr>reads := Suc (Suc (reads w))\<rparr>)"
      by (intro getRedditAccessToken_cached) simp_all
    then show ?thesis by simp
  next
    case False
    then have "token_store w token_key = None
         \<or> (\<exists>entry. token_store w token_key = Some entry
               \<and> (Date_now e (reads w) > expiresAt entry
                    \<or> token_expiresAt (data entry) \<le> Date_now e (Suc (reads w)) + 60000))"
      by (cases "token_store w token_key") auto
    with creds obtain w1 where w1: "requests w1 = requests w"
      and g: "getRedditAccessToken e w = (Inr (fst (exchange_token e w1)), snd (exchange_token e w1))"
      using getRedditAccessToken_refresh[of e w] by blast
    have "requests (snd (getRedditAccessToken e w))
        = requests w @ [TokenExchange (interpolate (REDDIT_CLIENT_ID e))
                          (interpolate (REDDIT_CLIENT_SECRET e)) (user_agent e)]"
      by (simp add: g exchange_token_requests w1)
    then show ?thesis by simp
  qed
qed

lemma searchRedditWithOAuth_adds_no_public:
  "\<exists>xs. requests (snd (searchRedditWithOAuth e w topic)) = requests w @ xs
        \<and> filter is_public_search xs = []"
proof -
  obtain r w1 where g: "getRedditAccessToken e w = (Inr r, w1)"
    using getRedditAccessToken_returns[of e w] by (cases "getRedditAccessToken e w") auto
  obtain xs where xs: "requests w1 = requests w @ xs" "filter is_public_search xs = []"
    using getRedditAccessToken_adds_no_public[of e w] by (auto simp add: g)
  let ?req = "OAuthSearch topic (interpolate r) (user_agent e)"
  have after: "\<And>cs. requests (snd (posts_of_children e (issue w1 ?req) cs))
          = requests w @ (xs @ [?req])"
    by (simp add: posts_of_children_requests issue_def xs)
  have "requests (snd (searchRedditWithOAuth e w topic)) = requests w @ xs
        \<or> requests (snd (searchRedditWithOAuth e w topic)) = requests w @ (xs @ [?req])"
    using after
    by (simp add: searchRedditWithOAuth_def g Let_def issue_def xs
        split: sum.splits listing.splits prod.splits)
       (metis snd_conv)
  moreover have "filter is_public_search (xs @ [?req]) = []" using xs by simp
  ultimately show ?thesis using xs by blast
qed

lemma search_topic_extends:
  "\<exists>xs. requests (snd (search_topic e hasOAuth w topic)) = requests w @ xs"
proof (cases hasOAuth)
  case False
  then show ?thesis by (simp add: search_topic_def searchRedditPublic_requests)
next
  case True
  obtain ps w1 where o: "searchRedditWithOAuth e w topic = (Inr ps, w1)"
    using searchRedditWithOAuth_returns[of e w topic]
    by (cases "searchRedditWithOAuth e w topic") auto
  obtain xs where xs: "requests w1 = requests w @ xs"
    using searchRedditWithOAuth_adds_no_public[of e w topic] by (auto simp add: o)
  show ?thesis using True by (simp add: search_topic_def o searchRedditPublic_requests xs)
qed

lemma search_loop_extends:
  "\<exists>xs. requests (snd (search_loop e hasOAuth tps allPosts w)) = requests w @ xs"
proof (induction tps arbitrary: allPosts w)
  case Nil
  then show ?case by simp
next
  case (Cons topic rest)
  obtain ps w1 where s: "search_topic e hasOAuth w topic = (Inr ps, w1)"
    using search_topic_returns[of e hasOAuth w topic]
    by (cases "search_topic e hasOAuth w topic") auto
  obtain xs where xs: "requests w1 = requests w @ xs"
    using search_topic_extends[of e hasOAuth w topic] by (auto simp add: s)
  obtain ys where "requests (snd (search_loop e hasOAuth rest
        (if length ps > 0 then allPosts @ ps else allPosts) w1)) = requests w1 @ ys"
    using Cons.IH by blast
  then show ?case by (simp add: s xs)
qed

lemma search_loop_append:
  "search_loop e hasOAuth (pre @ rest) allPosts w
     = (case search_loop e hasOAuth pre allPosts w of
          (Inl err, w1) \<Rightarrow> (Inl err, w1)
        | (Inr acc, w1) \<Rightarrow> search_loop e hasOAuth rest acc w1)"
proof (induction pre arbitrary: allPosts w)
  case Nil
  then show ?case by simp
next
  case (Cons topic pre)
  show ?case
    by (cases "search_topic e hasOAuth w topic") (simp add: Cons.IH split: sum.splits)
qed

lemma search_loop_fallback_everywhere:
  assumes "\<forall>w' t. fst (searchRedditWithOAuth e w' t) = Inr []"
  shows "filter is_public_search (requests (snd (search_loop e True tps allPosts w)))
           = filter is_public_search (requests w) @ map PublicSearch tps"
proof (induction tps arbitrary: allPosts w)
  case Nil
  then show ?case by simp
next
  case (Cons topic rest)
  let ?w1 = "snd (searchRedditWithOAuth e w topic)"
  have z: "fst (searchRedditWithOAuth e w topic) = Inr []" using assms by blast
  then have st: "search_topic e True w topic = searchRedditPublic e ?w1 topic"
    by (rule search_topic_fallback)
  obtain xs where xs: "requests ?w1 = requests w @ xs" "filter is_public_search xs = []"
    using searchRedditWithOAuth_adds_no_public[of e w topic] by blast
  obtain ps w2 where p: "searchRedditPublic e ?w1 topic = (Inr ps, w2)"
    using searchRedditPublic_returns[of e ?w1 topic]
    by (cases "searchRedditPublic e ?w1 topic") auto
  have w2: "requests w2 = requests w @ xs @ [PublicSearch topic]"
    using searchRedditPublic_requests[of e ?w1 topic] by (simp add: p xs)
  show ?case using Cons.IH xs by (simp add: st p w2)
qed


lemma searchRedditPosts_world:
  "snd (searchRedditPosts e w tps)
     = snd (search_loop e (truthy (REDDIT_CLIENT_ID e) \<and> truthy (REDDIT_CLIENT_SECRET e))
              (take 3 tps) [] w)"
proof (cases "length tps = 0")
  case True
  then show ?thesis by (simp add: searchRedditPosts_def)
next
  case False
  let ?h = "truthy (REDDIT_CLIENT_ID e) \<and> truthy (REDDIT_CLIENT_SECRET e)"
  obtain r w1 where l: "search_loop e ?h (take 3 tps) [] w = (r, w1)"
    by (cases "search_loop e ?h (take 3 tps) [] w")
  show ?thesis using False by (cases r) (simp_all add: searchRedditPosts_def l)
qed

lemma search_loop_fallback_at:
  assumes z: "fst (searchRedditWithOAuth e (snd (search_loop e True pre [] w)) topic) = Inr []"
  shows "\<exists>rest. requests (snd (search_loop e True (pre @ topic # post) [] w))
           = requests (snd (searchRedditWithOAuth e (snd (search_loop e True pre [] w)) topic))
               @ PublicSearch topic # rest"
proof -
  obtain acc wt where l: "search_loop e True pre [] w = (Inr acc, wt)"
    using search_loop_returns[of e True pre "[]" w]
    by (cases "search_loop e True pre [] w") auto
  obtain r w1 where o: "searchRedditWithOAuth e wt topic = (r, w1)"
    by (cases "searchRedditWithOAuth e wt topic")
  have r: "r = Inr []" using z by (simp add: l o)
  have "search_topic e True wt topic = searchRedditPublic e (snd (searchRedditWithOAuth e wt topic)) topic"
    by (rule search_topic_fallback) (simp add: o r)
  then have st: "search_topic e True wt topic = searchRedditPublic e w1 topic"
    by (simp add: o)
  obtain ps w2 where p: "searchRedditPublic e w1 topic = (Inr ps, w2)"
    using searchRedditPublic_returns[of e w1 topic]
    by (cases "searchRedditPublic e w1 topic") auto
  have w2: "requests w2 = requests w1 @ [PublicSearch topic]"
    using searchRedditPublic_requests[of e w1 topic] by (simp add: p)
  obtain ys where "requests (snd (search_loop e True post
        (if length ps > 0 then acc @ ps else acc) w2)) = requests w2 @ ys"
    using search_loop_extends by blast
  then have "requests (snd (search_loop e True (pre @ topic # post) [] w))
           = requests w1 @ PublicSearch topic # ys"
    by (simp add: search_loop_append l st p w2)
  then show ?thesis by (simp add: l o)
qed

lemma searchRedditPosts_single:
  assumes c: "truthy (REDDIT_CLIENT_ID e) \<and> truthy (REDDIT_CLIENT_SECRET e)"
    and z: "fst (searchRedditWithOAuth e w topic) = Inr []"
  shows "searchRedditPosts e w [topic]
           = (Inr (sortedPosts (uniquePosts
                     (projr (fst (searchRedditPublic e (snd (searchRedditWithOAuth e w topic)) topic))))),
              snd (searchRedditPublic e (snd (searchRedditWithOAuth e w topic)) topic))"
proof -
  let ?w1 = "snd (searchRedditWithOAuth e w topic)"
  have st: "search_topic e True w topic = searchRedditPublic e ?w1 topic"
    using z by (rule search_topic_fallback)
  obtain ps w2 where p: "searchRedditPublic e ?w1 topic = (Inr ps, w2)"
    using searchRedditPublic_returns[of e ?w1 topic]
    by (cases "searchRedditPublic e ?w1 topic") auto
  show ?thesis using c by (simp add: searchRedditPosts_def st p)
qed

text \<open>
  Claim C9. \<^verbatim>\<open>searchRedditPosts\<close> searches the first three topics in turn. With credentials,
  whenever the authenticated search of one of these topics yields no post, the public search
  of that topic is the very next request the adapter issues, before it goes on to the next
  topic or returns; for a single topic the adapter's result is then the public search's
  result (de-duplicated, sorted, capped); and when the authenticated search never finds
  anything, the public searches issued are exactly those of the first three topics, in
  order. Without credentials the public searches of the first three topics are the only
  requests of the adapter. When the authenticated and the public search find nothing,
  whatever the topic, the adapter returns the empty list; and it always returns a list,
  never an error. The first three conjuncts state the same of the loop body alone.
\<close>

theorem forum_search_fallback:
  "(fst (searchRedditWithOAuth e w topic) = Inr [] \<longrightarrow>
      search_topic e True w topic
        = searchRedditPublic e (snd (searchRedditWithOAuth e w topic)) topic
      \<and> requests (snd (search_topic e True w topic))
          = requests (snd (searchRedditWithOAuth e w topic)) @ [PublicSearch topic])
   \<and> search_topic e False w topic = searchRedditPublic e w topic
   \<and> requests (snd (search_topic e False w topic)) = requests w @ [PublicSearch topic]
   \<and> (\<not> (truthy (REDDIT_CLIENT_ID e) \<and> truthy (REDDIT_CLIENT_SECRET e)) \<longrightarrow>
        requests (snd (searchRedditPosts e w tps)) = requests w @ map PublicSearch (take 3 tps))
   \<and> ((\<forall>w' t. fst (searchRedditWithOAuth e w' t) = Inr [])
        \<and> (\<forall>w' t. fst (searchRedditPublic e w' t) = Inr []) \<longrightarrow>
        fst (searchRedditPosts e w tps) = Inr [])
   \<and> (\<exists>ps. fst (searchRedditPosts e w tps) = Inr ps)
   \<and> (truthy (REDDIT_CLIENT_ID e) \<and> truthy (REDDIT_CLIENT_SECRET e)
        \<and> take 3 tps = pre @ topic # post
        \<and> fst (searchRedditWithOAuth e (snd (searchRedditPosts e w pre)) topic) = Inr [] \<longrightarrow>
        (\<exists>rest. requests (snd (searchRedditPosts e w tps))
           = requests (snd (searchRedditWithOAuth e (snd (searchRedditPosts e w pre)) topic))
               @ PublicSearch topic # rest))
   \<and> (truthy (REDDIT_CLIENT_ID e) \<and> truthy (REDDIT_CLIENT_SECRET e)
        \<and> fst (searchRedditWithOAuth e w topic) = Inr [] \<longrightarrow>
        searchRedditPosts e w [topic]
          = (Inr (sortedPosts (uniquePosts
                    (projr (fst (searchRedditPublic e (snd (searchRedditWithOAuth e w topic)) topic))))),
             snd (searchRedditPublic e (snd (searchRedditWithOAuth e w topic)) topic)))
   \<and> (truthy (REDDIT_CLIENT_ID e) \<and> truthy (REDDIT_CLIENT_SECRET e)
        \<and> (\<forall>w' t. fst (searchRedditWithOAuth e w' t) = Inr []) \<longrightarrow>
        filter is_public_search (requests (snd (searchRedditPosts e w tps)))
          = filter is_public_search (requests w) @ map PublicSearch (take 3 tps))"
proof (intro conjI impI)
  assume z: "fst (searchRedditWithOAuth e w topic) = Inr []"
  then show f: "search_topic e True w topic
        = searchRedditPublic e (snd (searchRedditWithOAuth e w topic)) topic"
    by (rule search_topic_fallback)
  show "requests (snd (search_topic e True w topic))
          = requests (snd (searchRedditWithOAuth e w topic)) @ [PublicSearch topic]"
    by (simp add: f searchRedditPublic_requests)
next
  show "search_topic e False w topic = searchRedditPublic e w topic"
    by (simp add: search_topic_def)
  show "requests (snd (search_topic e False w topic)) = requests w @ [PublicSearch topic]"
    by (simp add: search_topic_def searchRedditPublic_requests)
next
  assume n: "\<not> (truthy (REDDIT_CLIENT_ID e) \<and> truthy (REDDIT_CLIENT_SECRET e))"
  show "requests (snd (searchRedditPosts e w tps)) = requests w @ map PublicSearch (take 3 tps)"
  proof -
    from n have "(truthy (REDDIT_CLIENT_ID e) \<and> truthy (REDDIT_CLIENT_SECRET e)) = False"
      by simp
    then show ?thesis by (simp only: searchRedditPosts_world search_loop_public_only)
  qed
next
  assume "(\<forall>w' t. fst (searchRedditWithOAuth e w' t) = Inr [])
        \<and> (\<forall>w' t. fst (searchRedditPublic e w' t) = Inr [])"
  then show "fst (searchRedditPosts e w tps) = Inr []"
    by (rule searchRedditPosts_nothing)
next
  show "\<exists>ps. fst (searchRedditPosts e w tps) = Inr ps"
    using searchRedditPosts_shape[of e w tps] by blast
next
  assume a: "truthy (REDDIT_CLIENT_ID e) \<and> truthy (REDDIT_CLIENT_SECRET e)
        \<and> take 3 tps = pre @ topic # post
        \<and> fst (searchRedditWithOAuth e (snd (searchRedditPosts e w pre)) topic) = Inr []"
  then have "length (take 3 tps) = length pre + Suc (length post)" by simp
  then have "length pre \<le> 3" by simp
  then have pre: "take 3 pre = pre" by simp
  have wt: "snd (searchRedditPosts e w pre) = snd (search_loop e True pre [] w)"
    using a by (simp add: searchRedditPosts_world pre)
  have all: "snd (searchRedditPosts e w tps) = snd (search_loop e True (pre @ topic # post) [] w)"
    using a by (simp add: searchRedditPosts_world)
  from a have "fst (searchRedditWithOAuth e (snd (search_loop e True pre [] w)) topic) = Inr []"
    by (simp add: wt)
  then show "\<exists>rest. requests (snd (searchRedditPosts e w tps))
           = requests (snd (searchRedditWithOAuth e (snd (searchRedditPosts e w pre)) topic))
               @ PublicSearch topic # rest"
    unfolding wt all by (rule search_loop_fallback_at)
next
  assume "truthy (REDDIT_CLIENT_ID e) \<and> truthy (REDDIT_CLIENT_SECRET e)
        \<and> fst (searchRedditWithOAuth e w topic) = Inr []"
  then show "searchRedditPosts e w [topic]
          = (Inr (sortedPosts (uniquePosts
                    (projr (fst (searchRedditPublic e (snd (searchRedditWithOAuth e w topic)) topic))))),
             snd (searchRedditPublic e (snd (searchRedditWithOAuth e w topic)) topic))"
    by (intro searchRedditPosts_single) simp_all
next
  assume a: "truthy (REDDIT_CLIENT_ID e) \<and> truthy (REDDIT_CLIENT_SECRET e)
        \<and> (\<forall>w' t. fst (searchRedditWithOAuth e w' t) = Inr [])"
  then have "\<forall>w' t. fst (searchRedditWithOAuth e w' t) = Inr []" by blast
  then have "filter is_public_search (requests (snd (search_loop e True (take 3 tps) [] w)))
           = filter is_public_search (requests w) @ map PublicSearch (take 3 tps)"
    by (rule search_loop_fallback_everywhere)
  then show "filter is_public_search (requests (snd (searchRedditPosts e w tps)))
          = filter is_public_search (requests w) @ map PublicSearch (take 3 tps)"
    using a by (simp add: searchRedditPosts_world)
qed

lemmas search_defs = searchRedditPosts_def search_topic_def searchRedditWithOAuth_def
  searchRedditPublic_def post_of_child_def first_truthy_def sortedPosts_def uniquePosts_def

theorem forum_search_fallback_witness:
  "fst (searchRedditWithOAuth sample_env sample_world ''chess'') = Inr []
   \<and> requests (snd (search_topic sample_env True sample_world ''chess''))
       = [TokenExchange ''id'' ''secret'' ''TubeAI/1.0 by /u/yourusername'',
          OAuthSearch ''chess'' ''tok'' ''TubeAI/1.0 by /u/yourusername'',
          PublicSearch ''chess'']
   \<and> \<not> (truthy (REDDIT_CLIENT_ID sample_env_no_client_id)
          \<and> truthy (REDDIT_CLIENT_SECRET sample_env_no_client_id))
   \<and> requests (snd (searchRedditPosts sample_env_no_client_id sample_world
                      [''chess'', ''go'', ''shogi'', ''draughts'']))
       = [PublicSearch ''chess'', PublicSearch ''go'', PublicSearch ''shogi'']
   \<and> (\<forall>w' t. fst (searchRedditWithOAuth sample_env_nothing_found w' t) = Inr [])
   \<and> (\<forall>w' t. fst (searchRedditPublic sample_env_nothing_found w' t) = Inr [])
   \<and> fst (searchRedditPosts sample_env_nothing_found sample_world [''chess'', ''go'']) = Inr []
   \<and> truthy (REDDIT_CLIENT_ID sample_env) \<and> truthy (REDDIT_CLIENT_SECRET sample_env)
   \<and> take 3 [''chess'', ''go'', ''shogi'', ''draughts''] = [''chess''] @ ''go'' # [''shogi'']
   \<and> fst (searchRedditWithOAuth sample_env
             (snd (searchRedditPosts sample_env sample_world [''chess''])) ''go'') = Inr []
   \<and> (\<exists>rest. requests (snd (searchRedditPosts sample_env sample_world
                               [''chess'', ''go'', ''shogi'', ''draughts'']))
         = [TokenExchange ''id'' ''secret'' ''TubeAI/1.0 by /u/yourusername'',
            OAuthSearch ''chess'' ''tok'' ''TubeAI/1.0 by /u/yourusername'',
            PublicSearch ''chess'',
            OAuthSearch ''go'' ''tok'' ''TubeAI/1.0 by /u/yourusername'',
            PublicSearch ''go''] @ rest)
   \<and> fst (searchRedditPosts sample_env sample_world [''chess'']) = Inr [sample_post]
   \<and> requests (snd (searchRedditPosts sample_env sample_world [''chess'']))
       = [TokenExchange ''id'' ''secret'' ''TubeAI/1.0 by /u/yourusername'',
          OAuthSearch ''chess'' ''tok'' ''TubeAI/1.0 by /u/yourusername'',
          PublicSearch ''chess'']
   \<and> (\<forall>w' t. fst (searchRedditWithOAuth sample_env w' t) = Inr [])
   \<and> filter is_public_search
         (requests (snd (searchRedditPosts sample_env sample_world
                           [''chess'', ''go'', ''shogi'', ''draughts''])))
       = [PublicSearch ''chess'', PublicSearch ''go'', PublicSearch ''shogi'']"
proof -
  have o: "fst (searchRedditWithOAuth sample_env sample_world ''chess'') = Inr []"
    by (rule searchRedditWithOAuth_nothing) (simp add: sample_env_defs)
  have after: "requests (snd (searchRedditWithOAuth sample_env sample_world ''chess''))
       = [TokenExchange ''id'' ''secret'' ''TubeAI/1.0 by /u/yourusername'',
          OAuthSearch ''chess'' ''tok'' ''TubeAI/1.0 by /u/yourusername'']"
    by (simp add: search_defs token_defs sample_env_defs)
  have n: "\<not> (truthy (REDDIT_CLIENT_ID sample_env_no_client_id)
          \<and> truthy (REDDIT_CLIENT_SECRET sample_env_no_client_id))"
    by (simp add: sample_env_defs)
  have e1: "\<forall>w' t. fst (searchRedditWithOAuth sample_env_nothing_found w' t) = Inr []"
    by (intro allI searchRedditWithOAuth_nothing) (simp add: sample_env_defs)
  have e2: "\<forall>w' t. fst (searchRedditPublic sample_env_nothing_found w' t) = Inr []"
    by (intro allI searchRedditPublic_nothing) (simp add: sample_env_defs)
  have e3: "\<forall>w' t. fst (searchRedditWithOAuth sample_env w' t) = Inr []"
    by (intro allI searchRedditWithOAuth_nothing) (simp add: sample_env_defs)
  have c: "truthy (REDDIT_CLIENT_ID sample_env) \<and> truthy (REDDIT_CLIENT_SECRET sample_env)"
    by (simp add: sample_env_defs)
  have t: "take 3 [''chess'', ''go'', ''shogi'', ''draughts''] = [''chess''] @ ''go'' # [''shogi'']"
    by simp
  have o2: "fst (searchRedditWithOAuth sample_env
             (snd (searchRedditPosts sample_env sample_world [''chess''])) ''go'') = Inr []"
    using e3 by blast
  have after2: "requests (snd (searchRedditWithOAuth sample_env
             (snd (searchRedditPosts sample_env sample_world [''chess''])) ''go''))
       = [TokenExchange ''id'' ''secret'' ''TubeAI/1.0 by /u/yourusername'',
          OAuthSearch ''chess'' ''tok'' ''TubeAI/1.0 by /u/yourusername'',
          PublicSearch ''chess'',
          OAuthSearch ''go'' ''tok'' ''TubeAI/1.0 by /u/yourusername'']"
    by (simp add: search_defs token_defs sample_env_defs)
  have pub: "searchRedditPublic sample_env (snd (searchRedditWithOAuth sample_env sample_world ''chess''))
               ''chess''
             = (Inr [sample_post, sample_post\<lparr>post_score := 7\<rparr>],
                (snd (searchRedditWithOAuth sample_env sample_world ''chess''))
                  \<lparr>requests := requests (snd (searchRedditWithOAuth sample_env sample_world ''chess''))
                                 @ [PublicSearch ''chess'']\<rparr>)"
    by (simp add: searchRedditPublic_def post_of_child_def first_truthy_def issue_def Let_def
        sample_env_defs sample_post_def)
  have su: "sortedPosts (uniquePosts [sample_post, sample_post\<lparr>post_score := 7\<rparr>]) = [sample_post]"
    by (simp add: sortedPosts_def uniquePosts_def sample_post_def)
  note f = forum_search_fallback
  from f [of sample_env sample_world "''chess''" "[]", THEN conjunct1, rule_format, OF o,
          THEN conjunct2] after
  have c1: "requests (snd (search_topic sample_env True sample_world ''chess''))
       = [TokenExchange ''id'' ''secret'' ''TubeAI/1.0 by /u/yourusername'',
          OAuthSearch ''chess'' ''tok'' ''TubeAI/1.0 by /u/yourusername'',
          PublicSearch ''chess'']"
    by simp
  from f [of sample_env_no_client_id sample_world "''chess''"
            "[''chess'', ''go'', ''shogi'', ''draughts'']",
          THEN conjunct2, THEN conjunct2, THEN conjunct2, THEN conjunct1, rule_format, OF n]
  have c2: "requests (snd (searchRedditPosts sample_env_no_client_id sample_world
                      [''chess'', ''go'', ''shogi'', ''draughts'']))
       = [PublicSearch ''chess'', PublicSearch ''go'', PublicSearch ''shogi'']"
    by (simp add: sample_env_defs)
  from f [of sample_env_nothing_found sample_world "''chess''" "[''chess'', ''go'']",
          THEN conjunct2, THEN conjunct2, THEN conjunct2, THEN conjunct2, THEN conjunct1,
          rule_format] e1 e2
  have c3: "fst (searchRedditPosts sample_env_nothing_found sample_world [''chess'', ''go''])
              = Inr []"
    by blast
  note g = f [THEN conjunct2, THEN conjunct2, THEN conjunct2, THEN conjunct2, THEN conjunct2,
              THEN conjunct2]
  from g [of sample_env "[''chess'', ''go'', ''shogi'', ''draughts'']" "[''chess'']" "''go''"
             "[''shogi'']" sample_world, THEN conjunct1, rule_format] c t o2
  have "\<exists>rest. requests (snd (searchRedditPosts sample_env sample_world
                               [''chess'', ''go'', ''shogi'', ''draughts'']))
         = requests (snd (searchRedditWithOAuth sample_env
             (snd (searchRedditPosts sample_env sample_world [''chess''])) ''go''))
            @ PublicSearch ''go'' # rest"
    by blast
  then have c4: "\<exists>rest. requests (snd (searchRedditPosts sample_env sample_world
                               [''chess'', ''go'', ''shogi'', ''draughts'']))
         = [TokenExchange ''id'' ''secret'' ''TubeAI/1.0 by /u/yourusername'',
            OAuthSearch ''chess'' ''tok'' ''TubeAI/1.0 by /u/yourusername'',
            PublicSearch ''chess'',
            OAuthSearch ''go'' ''tok'' ''TubeAI/1.0 by /u/yourusername'',
            PublicSearch ''go''] @ rest"
    by (simp add: after2)
  from g [of sample_env "[]" "[]" "''chess''" "[]" sample_world,
          THEN conjunct2, THEN conjunct1, rule_format] c o
  have c5: "searchRedditPosts sample_env sample_world [''chess'']
          = (Inr (sortedPosts (uniquePosts
                    (projr (fst (searchRedditPublic sample_env
                       (snd (searchRedditWithOAuth sample_env sample_world ''chess'')) ''chess''))))),
             snd (searchRedditPublic sample_env
                       (snd (searchRedditWithOAuth sample_env sample_world ''chess'')) ''chess''))"
    by blast
  have c5a: "fst (searchRedditPosts sample_env sample_world [''chess'']) = Inr [sample_post]"
    by (simp add: c5 pub su)
  have c5b: "requests (snd (searchRedditPosts sample_env sample_world [''chess'']))
       = [TokenExchange ''id'' ''secret'' ''TubeAI/1.0 by /u/yourusername'',
          OAuthSearch ''chess'' ''tok'' ''TubeAI/1.0 by /u/yourusername'',
          PublicSearch ''chess'']"
    by (simp add: c5 pub after)
  from g [of sample_env "[''chess'', ''go'', ''shogi'', ''draughts'']" "[]" "''chess''" "[]"
             sample_world, THEN conjunct2, THEN conjunct2, rule_format] c e3
  have c6: "filter is_public_search
         (requests (snd (searchRedditPosts sample_env sample_world
                           [''chess'', ''go'', ''shogi'', ''draughts''])))
       = [PublicSearch ''chess'', PublicSearch ''go'', PublicSearch ''shogi'']"
    by (simp add: sample_env_defs)
  from o c1 n c2 e1 e2 c3 c t o2 c4 c5a c5b e3 c6 show ?thesis by (intro conjI) blast+
qed

subsection \<open>De-duplication, order and bound of the pooled result\<close>

lemma findIndex_first:
  "i < length xs \<Longrightarrow>
   (findIndex P xs = int i) = (P (xs ! i) \<and> (\<forall>j<i. \<not> P (xs ! j)))"
proof (induction xs arbitrary: i)
  case Nil
  then show ?case by simp
next
  case (Cons x xs)
  show ?case
  proof (cases i)
    case 0
    then show ?thesis by (auto simp: Let_def)
  next
    case (Suc k)
    then have k: "k < length xs" using Cons.prems by simp
    have ih: "(findIndex P xs = int k) = (P (xs ! k) \<and> (\<forall>j<k. \<not> P (xs ! j)))"
      using Cons.IH[OF k] .
    have all: "(\<forall>j<Suc k. \<not> P ((x # xs) ! j)) = (\<not> P x \<and> (\<forall>j<k. \<not> P (xs ! j)))"
      by (auto simp: less_Suc_eq_0_disj)
    show ?thesis
    proof (cases "P x")
      case True
      then show ?thesis using Suc all by auto
    next
      case False
      have "(findIndex P (x # xs) = int (Suc k)) = (findIndex P xs = int k)"
        using False by (auto simp: Let_def)
      then show ?thesis using Suc ih all False by simp
    qed
  qed
qed

lemma findIndex_found:
  "x \<in> set xs \<Longrightarrow> P x \<Longrightarrow> \<exists>i<length xs. findIndex P xs = int i"
proof (induction xs)
  case Nil
  then show ?case by simp
next
  case (Cons y ys)
  show ?case
  proof (cases "P y")
    case True
    then show ?thesis by auto
  next
    case False
    then have "x \<in> set ys" using Cons.prems by auto
    then obtain i where "i < length ys" "findIndex P ys = int i"
      using Cons.IH Cons.prems(2) by blast
    then have "Suc i < length (y # ys) \<and> findIndex P (y # ys) = int (Suc i)"
      using False by (simp add: Let_def)
    then show ?thesis by blast
  qed
qed

lemma uniquePosts_member:
  "(p \<in> set (uniquePosts pool))
     = (\<exists>i<length pool. pool ! i = p
                         \<and> findIndex (\<lambda>q. post_url q = post_url p) pool = int i)"
  by (auto simp: uniquePosts_def in_set_enumerate_eq image_iff)

lemma uniquePosts_first:
  "p \<in> set (uniquePosts pool) \<Longrightarrow>
   \<exists>i<length pool. pool ! i = p \<and> (\<forall>j<i. post_url (pool ! j) \<noteq> post_url p)"
proof -
  assume "p \<in> set (uniquePosts pool)"
  then obtain i where i: "i < length pool" "pool ! i = p"
    "findIndex (\<lambda>q. post_url q = post_url p) pool = int i"
    using uniquePosts_member by blast
  then have "\<forall>j<i. post_url (pool ! j) \<noteq> post_url p"
    using findIndex_first[of i pool "\<lambda>q. post_url q = post_url p"] by simp
  with i show ?thesis by blast
qed

lemma uniquePosts_covers:
  assumes "q \<in> set pool"
  shows "\<exists>p\<in>set (uniquePosts pool). post_url p = post_url q"
proof -
  obtain i where i: "i < length pool" "findIndex (\<lambda>x. post_url x = post_url q) pool = int i"
    using findIndex_found[OF assms, of "\<lambda>x. post_url x = post_url q"] by auto
  then have u: "post_url (pool ! i) = post_url q"
    using findIndex_first[of i pool "\<lambda>x. post_url x = post_url q"] by simp
  then have "findIndex (\<lambda>x. post_url x = post_url (pool ! i)) pool = int i"
    using i by simp
  then have "pool ! i \<in> set (uniquePosts pool)"
    using i uniquePosts_member by blast
  with u show ?thesis by blast
qed

lemma uniquePosts_distinct: "distinct (map post_url (uniquePosts pool))"
proof -
  let ?sel = "filter (\<lambda>(index, post). int index
                 = findIndex (\<lambda>p. post_url p = post_url post) pool) (enumerate 0 pool)"
  have d: "distinct ?sel" by simp
  have inj: "inj_on (\<lambda>x. post_url (snd x)) (set ?sel)"
  proof (rule inj_onI)
    fix a b assume a: "a \<in> set ?sel" and b: "b \<in> set ?sel"
      and eq: "post_url (snd a) = post_url (snd b)"
    obtain i p where ap: "a = (i, p)" by (cases a)
    obtain j q where bq: "b = (j, q)" by (cases b)
    from a ap have ai: "i < length pool" "p = pool ! i"
      "int i = findIndex (\<lambda>x. post_url x = post_url p) pool"
      by (auto simp: in_set_enumerate_eq)
    from b bq have bj: "j < length pool" "q = pool ! j"
      "int j = findIndex (\<lambda>x. post_url x = post_url q) pool"
      by (auto simp: in_set_enumerate_eq)
    from eq ap bq have "post_url p = post_url q" by simp
    with ai bj have "i = j" by simp
    with ai bj ap bq show "a = b" by simp
  qed
  have "distinct (map (\<lambda>x. post_url (snd x)) ?sel)"
    using d inj by (simp add: distinct_map)
  then show ?thesis by (simp add: uniquePosts_def comp_def)
qed

lemma sortedPosts_subset: "set (sortedPosts us) \<subseteq> set us"
  unfolding sortedPosts_def using set_take_subset[of 15 "sort_key (\<lambda>p. - post_score p) us"]
  by simp

lemma sortedPosts_all: "length us \<le> 15 \<Longrightarrow> set (sortedPosts us) = set us"
  by (simp add: sortedPosts_def)

lemma sortedPosts_descending:
  "sorted_wrt (\<lambda>a b. post_score a \<ge> post_score b) (sortedPosts us)"
proof -
  have "sorted (map (\<lambda>p. - post_score p) (sort_key (\<lambda>p. - post_score p) us))"
    by (rule sorted_sort_key)
  then have "sorted_wrt (\<lambda>a b. - post_score a \<le> - post_score b)
               (sort_key (\<lambda>p. - post_score p) us)"
    by (simp add: sorted_map)
  then have "sorted_wrt (\<lambda>a b. post_score a \<ge> post_score b) (sort_key (\<lambda>p. - post_score p) us)"
    by simp
  then show ?thesis unfolding sortedPosts_def by (rule sorted_wrt_take)
qed

lemma sortedPosts_distinct:
  "distinct (map post_url us) \<Longrightarrow> distinct (map post_url (sortedPosts us))"
proof -
  assume d: "distinct (map post_url us)"
  have "distinct (map post_url (sort_key (\<lambda>p. - post_score p) us))"
    using d by (metis distinct_map distinct_sort set_sort)
  then show ?thesis
    unfolding sortedPosts_def by (simp add: take_map[symmetric])
qed

text \<open>
  Claim C10. For every pooled list, the output \<^verbatim>\<open>sortedPosts\<close> of the adapter has no two
  items with the same URL; each item is the first item of the pool with its URL; the items
  are in descending order of score; there are at most 15; and when the pool has at most 15
  different URLs, every URL of the pool is there (exactly once). The value
  \<^verbatim>\<open>searchRedditPosts\<close> returns is always such an output.
\<close>

theorem forum_output_unique_sorted_capped:
  "distinct (map post_url (sortedPosts (uniquePosts pool)))
   \<and> (\<forall>p\<in>set (sortedPosts (uniquePosts pool)).
         \<exists>i<length pool. pool ! i = p \<and> (\<forall>j<i. post_url (pool ! j) \<noteq> post_url p))
   \<and> sorted_wrt (\<lambda>a b. post_score a \<ge> post_score b) (sortedPosts (uniquePosts pool))
   \<and> length (sortedPosts (uniquePosts pool)) \<le> 15
   \<and> (length (uniquePosts pool) \<le> 15 \<longrightarrow>
        (\<forall>q\<in>set pool. \<exists>p\<in>set (sortedPosts (uniquePosts pool)). post_url p = post_url q))
   \<and> (\<exists>pool'. fst (searchRedditPosts e w tps) = Inr (sortedPosts (uniquePosts pool')))"
proof (intro conjI impI ballI)
  show "distinct (map post_url (sortedPosts (uniquePosts pool)))"
    by (rule sortedPosts_distinct) (rule uniquePosts_distinct)
next
  fix p assume "p \<in> set (sortedPosts (uniquePosts pool))"
  then have "p \<in> set (uniquePosts pool)" using sortedPosts_subset by blast
  then show "\<exists>i<length pool. pool ! i = p \<and> (\<forall>j<i. post_url (pool ! j) \<noteq> post_url p)"
    by (rule uniquePosts_first)
next
  show "sorted_wrt (\<lambda>a b. post_score a \<ge> post_score b) (sortedPosts (uniquePosts pool))"
    by (rule sortedPosts_descending)
next
  show "length (sortedPosts (uniquePosts pool)) \<le> 15"
    by (simp add: sortedPosts_def)
next
  fix q assume "length (uniquePosts pool) \<le> 15" and "q \<in> set pool"
  then show "\<exists>p\<in>set (sortedPosts (uniquePosts pool)). post_url p = post_url q"
    using uniquePosts_covers[of q pool] by (simp add: sortedPosts_all)
next
  show "\<exists>pool'. fst (searchRedditPosts e w tps) = Inr (sortedPosts (uniquePosts pool'))"
    by (rule searchRedditPosts_shape)
qed

lemma sample_pool_output:
  "sortedPosts (uniquePosts sample_pool)
     = [sample_post\<lparr>post_url := ''https://reddit.com/r/chess/2'', post_score := 99\<rparr>, sample_post]"
  by (simp add: sortedPosts_def uniquePosts_def sample_pool_def sample_post_def Let_def)

theorem forum_output_unique_sorted_capped_witness:
  "sortedPosts (uniquePosts sample_pool)
     = [sample_post\<lparr>post_url := ''https://reddit.com/r/chess/2'', post_score := 99\<rparr>, sample_post]
   \<and> distinct (map post_url (sortedPosts (uniquePosts sample_pool)))
   \<and> sorted_wrt (\<lambda>a b. post_score a \<ge> post_score b) (sortedPosts (uniquePosts sample_pool))
   \<and> length (sortedPosts (uniquePosts sample_pool)) \<le> 15
   \<and> length (uniquePosts sample_pool) \<le> 15
   \<and> list_all (\<lambda>q. \<exists>p\<in>set (sortedPosts (uniquePosts sample_pool)). post_url p = post_url q)
        sample_pool
   \<and> list_all (\<lambda>p. \<exists>i<length sample_pool. sample_pool ! i = p
                      \<and> (\<forall>j<i. post_url (sample_pool ! j) \<noteq> post_url p))
        (sortedPosts (uniquePosts sample_pool))
   \<and> fst (searchRedditPosts sample_env sample_world [''chess''])
       = Inr [\<lparr>post_title = ''Opening traps'', post_url = ''https://reddit.com/r/chess/1'',
               post_subreddit = ''chess'', post_score = 42, post_created = 1700000000\<rparr>]"
proof -
  have short: "length (uniquePosts sample_pool) \<le> 15"
    by (simp add: uniquePosts_def sample_pool_def sample_post_def Let_def)
  have run: "fst (searchRedditPosts sample_env sample_world [''chess''])
       = Inr [\<lparr>post_title = ''Opening traps'', post_url = ''https://reddit.com/r/chess/1'',
               post_subreddit = ''chess'', post_score = 42, post_created = 1700000000\<rparr>]"
    by (simp add: search_defs token_defs sample_env_defs)
  note t = forum_output_unique_sorted_capped [of sample_pool sample_env sample_world "[''chess'']"]
  from t short sample_pool_output run show ?thesis unfolding list_all_iff by blast
qed

section \<open>The failure contract of the adapters\<close>















end
